theory Spec2Isabelle
  imports Main
begin

section \<open>Resource states, goals, events and steps\<close>

text \<open>
  The planner of \<^verbatim>\<open>pkg/resource/deploy/plan_apply.go\<close>. URNs, type tokens, resource
  ids and property keys are Go strings. A Go property map may be \<^verbatim>\<open>nil\<close>; the model keeps
  the difference: \<open>None\<close> is the nil map.
\<close>

type_synonym URN = string
type_synonym TokenType = string
type_synonym ID = string
type_synonym PropertyKey = string

text \<open>
  Modelled from the spec: \<^verbatim>\<open>resource.PropertyValue\<close> is not under src/. The spec calls it a
  tagged value (scalar, list, map, asset, secret, computed placeholder). The planner never
  looks inside a value.
\<close>

datatype PropertyValue =
    PNull
  | PBool bool
  | PNumber int
  | PString string
  | PArray "PropertyValue list"
  | PObject "(PropertyKey \<times> PropertyValue) list"
  | PAsset string
  | PSecret PropertyValue
  | PComputed

type_synonym PropertyMap = "(PropertyKey \<rightharpoonup> PropertyValue) option"

text \<open>
  \<^verbatim>\<open>resource.State\<close>, with the fields \<^verbatim>\<open>resource.NewState\<close> receives in
  \<^verbatim>\<open>makeRegisterResouceSteps\<close>. The planner holds states by pointer
  (\<^verbatim>\<open>*resource.State\<close>): a pointer is an address \<open>ref\<close> into the heap of the iterator's
  world.
\<close>

record State =
  Type :: TokenType
  URN :: URN
  Custom :: bool
  Delete :: bool
  ID :: ID
  Inputs :: PropertyMap
  Outputs :: PropertyMap
  Parent :: URN

type_synonym ref = nat

definition NewState ::
  "TokenType \<Rightarrow> URN \<Rightarrow> bool \<Rightarrow> bool \<Rightarrow> ID \<Rightarrow> PropertyMap \<Rightarrow> PropertyMap \<Rightarrow> URN \<Rightarrow> State" where
  "NewState t urn custom del i inputs outputs parent =
     \<lparr>Type = t, URN = urn, Custom = custom, Delete = del, ID = i,
      Inputs = inputs, Outputs = outputs, Parent = parent\<rparr>"

text \<open>
  Modelled from the spec: \<^verbatim>\<open>State.AddOutputs\<close> is not under src/. The spec gives it append
  semantics: keys of the added map override existing keys of the same name.
\<close>

definition AddOutputs :: "(PropertyKey \<rightharpoonup> PropertyValue) \<Rightarrow> State \<Rightarrow> State" where
  "AddOutputs outs s =
     s\<lparr>Outputs := Some ((case Outputs s of None \<Rightarrow> Map.empty | Some m \<Rightarrow> m) ++ outs)\<rparr>"

text \<open>
  Modelled from the spec: \<^verbatim>\<open>resource.NewURN\<close> and \<^verbatim>\<open>tokens.Type.Package\<close> are not under
  src/. The URN is derived deterministically from the target name, the source package, the
  resource type and the resource name; the package is the first component of a type token.
\<close>

definition NewURN :: "string \<Rightarrow> string \<Rightarrow> TokenType \<Rightarrow> string \<Rightarrow> URN" where
  "NewURN ns pkg t name =
     ''urn:pulumi:'' @ ns @ ''::'' @ pkg @ ''::'' @ t @ ''::'' @ name"

definition Package :: "TokenType \<Rightarrow> string" where
  "Package t = takeWhile (\<lambda>c. c \<noteq> CHR '':'') t"

text \<open>The goal state a registration event carries (\<^verbatim>\<open>e.Goal()\<close>).\<close>

record Goal =
  GType :: TokenType
  GName :: string
  GCustom :: bool
  GProperties :: PropertyMap
  GParent :: URN

datatype RegisterResourceEvent = RegisterResourceEvent (Goal: Goal)

datatype RegisterResourceOutputsEvent =
  RegisterResourceOutputsEvent (EventURN: URN) (EventOutputs: PropertyMap)

text \<open>
  What the source iterator hands out: one of the two event kinds, or an event of a type the
  type switch of \<^verbatim>\<open>Next\<close> does not know.
\<close>

datatype SourceEvent =
    RegisterEv RegisterResourceEvent
  | OutputsEv RegisterResourceOutputsEvent
  | UnrecognizedEv

text \<open>
  Errors are values. \<^verbatim>\<open>goerr.New\<close> and \<^verbatim>\<open>goerr.Errorf\<close> make a leaf, \<^verbatim>\<open>goerr.Wrapf\<close>
  wraps a cause with a message. A failed \<^verbatim>\<open>contract.Assert\<close> is a panic, not an error
  return: \<open>Panics\<close>.
\<close>

datatype error = Errorf string | Wrapf error string

fun wraps :: "error \<Rightarrow> error \<Rightarrow> bool" where
  "wraps (Errorf m) e = (Errorf m = e)"
| "wraps (Wrapf c m) e = (Wrapf c m = e \<or> wraps c e)"

datatype 'a exec = Panics string | Returns 'a

datatype Status = StatusOK | StatusPartialFailure | StatusUnknown

text \<open>
  Modelled from the spec: the step variants and their constructors (\<^verbatim>\<open>NewSameStep\<close>,
  \<^verbatim>\<open>NewCreateStep\<close>, \<^verbatim>\<open>NewUpdateStep\<close>, \<^verbatim>\<open>NewCreateReplacementStep\<close>,
  \<^verbatim>\<open>NewReplaceStep\<close>, \<^verbatim>\<open>NewDeleteStep\<close>) are not under src/. A constructor keeps the
  arguments the planner passes (the iterator back pointer apart); \<open>Logical\<close>, \<open>Step_Old\<close>
  and \<open>Step_New\<close> follow the spec's table of variants, and a step's URN is that of the
  resource it works on.
\<close>

datatype Step =
    SameStep RegisterResourceEvent ref ref
  | CreateStep RegisterResourceEvent ref
  | UpdateStep RegisterResourceEvent ref ref "PropertyKey list"
  | CreateReplacementStep RegisterResourceEvent ref ref "PropertyKey list"
  | ReplaceStep ref ref "PropertyKey list"
  | DeleteStep ref bool

fun Logical :: "Step \<Rightarrow> bool" where
  "Logical (SameStep e old new) = True"
| "Logical (CreateStep e new) = True"
| "Logical (UpdateStep e old new stables) = True"
| "Logical (CreateReplacementStep e old new keys) = True"
| "Logical (ReplaceStep old new keys) = False"
| "Logical (DeleteStep old replacing) = False"

fun Step_Old :: "Step \<Rightarrow> ref option" where
  "Step_Old (SameStep e old new) = Some old"
| "Step_Old (CreateStep e new) = None"
| "Step_Old (UpdateStep e old new stables) = Some old"
| "Step_Old (CreateReplacementStep e old new keys) = Some old"
| "Step_Old (ReplaceStep old new keys) = Some old"
| "Step_Old (DeleteStep old replacing) = Some old"

fun Step_New :: "Step \<Rightarrow> ref option" where
  "Step_New (SameStep e old new) = Some new"
| "Step_New (CreateStep e new) = Some new"
| "Step_New (UpdateStep e old new stables) = Some new"
| "Step_New (CreateReplacementStep e old new keys) = Some new"
| "Step_New (ReplaceStep old new keys) = Some new"
| "Step_New (DeleteStep old replacing) = None"

definition Step_URN :: "(ref \<Rightarrow> State) \<Rightarrow> Step \<Rightarrow> URN" where
  "Step_URN h step =
     (case Step_New step of
        Some new \<Rightarrow> URN (h new)
      | None \<Rightarrow> (case Step_Old step of Some old \<Rightarrow> URN (h old) | None \<Rightarrow> []))"

section \<open>Providers, analyzers and the source\<close>

text \<open>
  Modelled from the spec: \<^verbatim>\<open>plugin.CheckFailure\<close>, \<^verbatim>\<open>plugin.AnalyzeFailure\<close> and
  \<^verbatim>\<open>plugin.DiffResult\<close> are not under src/. A failure names a property and a reason; a
  diff says whether it replaces, with the replace keys and the stable keys. The zero value
  of a diff (what Go leaves in \<^verbatim>\<open>var diff plugin.DiffResult\<close> when no provider is asked)
  does not replace.
\<close>

datatype CheckFailure = CheckFailure (Property: PropertyKey) (Reason: string)

datatype AnalyzeFailure = AnalyzeFailure (AProperty: PropertyKey) (AReason: string)

record DiffResult =
  Replace :: bool
  ReplaceKeys :: "PropertyKey list"
  StableKeys :: "PropertyKey list"

definition zeroDiffResult :: DiffResult where
  "zeroDiffResult = \<lparr>Replace = False, ReplaceKeys = [], StableKeys = []\<rparr>"

text \<open>
  A provider and an analyzer are external plugins: the model takes their answers as
  functions of the arguments the planner passes. \<^verbatim>\<open>Check\<close> answers an error, or the
  canonical inputs with the check failures; \<^verbatim>\<open>Diff\<close> an error or a diff.
\<close>

record plugin_Provider =
  Check :: "URN \<Rightarrow> PropertyMap \<Rightarrow> PropertyMap \<Rightarrow> error + (PropertyMap \<times> CheckFailure list)"
  Diff :: "URN \<Rightarrow> ID \<Rightarrow> PropertyMap \<Rightarrow> PropertyMap \<Rightarrow> error + DiffResult"

record plugin_Analyzer =
  Analyze :: "TokenType \<Rightarrow> PropertyMap \<Rightarrow> error + AnalyzeFailure list"

text \<open>
  One answer of \<^verbatim>\<open>src.Next()\<close>: an error, an event, or nil with no error (the end of
  the stream).
\<close>

datatype SourceResult = SrcError error | SrcEvent SourceEvent | SrcEnd

section \<open>The iterator\<close>

text \<open>
  The calls the iterator makes to its collaborators are recorded, in order, in a log: the
  source, the diagnostics sink, the provider, the analyzers, the event hooks, a step's own
  \<^verbatim>\<open>Apply\<close> and an output event's \<^verbatim>\<open>Done\<close>. A diagnostic is recorded with its message
  id and the URN it is about.
\<close>

type_synonym EventCtx = "nat option"

datatype Diag =
    ErrorDuplicateResourceURN
  | ErrorResourcePropertyInvalidValue
  | ErrorResourceInvalid
  | ErrorAnalyzeResourceFailure

datatype Call =
    SrcNext SourceResult
  | DiagErrorf Diag URN
  | ProviderCheck URN PropertyMap PropertyMap
  | ProviderDiff URN ID PropertyMap PropertyMap
  | AnalyzerAnalyze string TokenType PropertyMap
  | StepPre Step
  | StepApply Step bool
  | StepPost EventCtx Step Status "error option"
  | ResourceOutputs Step
  | EventDone RegisterResourceOutputsEvent

text \<open>
  \<^verbatim>\<open>PlanIterator\<close>. The maps \<^verbatim>\<open>map[resource.URN]bool\<close> are only ever written with
  \<^verbatim>\<open>true\<close>: they are sets; \<^verbatim>\<open>dones\<close> is keyed by pointer. \<open>src\<close> is the source
  iterator: the answers it has still to give (after the last one it answers nil for ever).
  \<open>heap\<close> is the memory the state pointers point into, \<open>next_ref\<close> the next address
  \<^verbatim>\<open>resource.NewState\<close> allocates, \<open>trace\<close> the log of calls. The field \<^verbatim>\<open>done\<close> is
  \<open>done_flag\<close> here.
\<close>

record PlanIterator =
  src :: "SourceResult list"
  urns :: "URN set"
  creates :: "URN set"
  updates :: "URN set"
  replaces :: "URN set"
  deletes :: "URN set"
  sames :: "URN set"
  stepqueue :: "Step list"
  delqueue :: "ref list"
  resources :: "ref list"
  regs :: "URN \<rightharpoonup> Step"
  dones :: "ref set"
  srcdone :: bool
  done_flag :: bool
  heap :: "ref \<Rightarrow> State"
  next_ref :: ref
  trace :: "Call list"

definition logCall :: "Call \<Rightarrow> PlanIterator \<Rightarrow> PlanIterator" where
  "logCall c it = it\<lparr>trace := trace it @ [c]\<rparr>"

text \<open>
  The optional event hooks of \<^verbatim>\<open>Options.Events\<close>. A hook is the caller's code: it is given
  the iterator as it stands when the hook is called, so that what it can observe is part of
  the model.
\<close>

record Events =
  OnResourceStepPre :: "Step \<Rightarrow> PlanIterator \<Rightarrow> EventCtx \<times> error option"
  OnResourceStepPost ::
    "EventCtx \<Rightarrow> Step \<Rightarrow> Status \<Rightarrow> error option \<Rightarrow> PlanIterator \<Rightarrow> error option"
  OnResourceOutputs :: "Step \<Rightarrow> PlanIterator \<Rightarrow> error option"

text \<open>
  The plan the iterator belongs to, with everything the iterator reaches through it and
  through its options: the target name and the source package, the prior snapshot
  \<^verbatim>\<open>p.prev\<close> (nil, or its resource list), the map \<^verbatim>\<open>p.Olds()\<close> from URN to prior state,
  the analyzer names, the host's plugin lookups, the property maps' \<^verbatim>\<open>DeepEquals\<close>, the
  steps' own \<^verbatim>\<open>Apply\<close> (a step's code runs against the iterator and the states), the
  event hooks, the outcome of \<^verbatim>\<open>p.configure()\<close> and of \<^verbatim>\<open>p.source.Iterate\<close>, the memory
  holding the prior states, and what the manifest of a snapshot is made of. All of these
  are code that is not under src/: the model takes them as given.
\<close>

record Plan =
  Target_Name :: string
  source_Pkg :: string
  prev :: "ref list option"
  Olds :: "URN \<rightharpoonup> ref"
  analyzers :: "string list"
  host_Provider :: "string \<Rightarrow> error + plugin_Provider option"
  host_Analyzer :: "string \<Rightarrow> error + plugin_Analyzer option"
  host_ListPlugins :: "string list"
  DeepEquals :: "PropertyMap \<Rightarrow> PropertyMap \<Rightarrow> bool"
  step_Apply :: "Step \<Rightarrow> bool \<Rightarrow> PlanIterator \<Rightarrow> (Status \<times> error option) \<times> PlanIterator"
  opts_Events :: "Events option"
  configure :: "error option"
  source_Iterate :: "error + SourceResult list"
  prior_heap :: "ref \<Rightarrow> State"
  prior_top :: ref
  time_Now :: nat
  version_Version :: string
  NewMagic :: "nat \<Rightarrow> string \<Rightarrow> string list \<Rightarrow> string"

text \<open>
  \<^verbatim>\<open>Start\<close>: configure the providers, ask the source for its iterator, and hand out an
  iterator whose sets, queues and maps are all empty.
\<close>

definition Start :: "Plan \<Rightarrow> error + PlanIterator" where
  "Start p =
     (case configure p of
        Some err \<Rightarrow> Inl err
      | None \<Rightarrow>
          (case source_Iterate p of
             Inl err \<Rightarrow> Inl err
           | Inr s \<Rightarrow>
               Inr \<lparr>src = s, urns = {}, creates = {}, updates = {}, replaces = {},
                    deletes = {}, sames = {}, stepqueue = [], delqueue = [],
                    resources = [], regs = Map.empty, dones = {}, srcdone = False,
                    done_flag = False, heap = prior_heap p, next_ref = prior_top p,
                    trace = []\<rparr>))"

text \<open>\<^verbatim>\<open>Provider\<close>: the host's provider for the package of a type; none is an error.\<close>

definition Provider :: "Plan \<Rightarrow> TokenType \<Rightarrow> error + plugin_Provider" where
  "Provider p t =
     (case host_Provider p (Package t) of
        Inl err \<Rightarrow> Inl err
      | Inr None \<Rightarrow> Inl (Errorf ''could not load resource provider for package from $PATH'')
      | Inr (Some prov) \<Rightarrow> Inr prov)"

section \<open>Deciding the steps of a registration\<close>

text \<open>
  \<^verbatim>\<open>issueCheckErrors\<close>: one diagnostic per failure (a property failure or a resource
  failure); true when there was a failure.
\<close>

definition issueCheckErrors ::
  "ref \<Rightarrow> URN \<Rightarrow> CheckFailure list \<Rightarrow> PlanIterator \<Rightarrow> bool \<times> PlanIterator" where
  "issueCheckErrors new urn failures it =
     (if failures = [] then (False, it)
      else (True,
        it\<lparr>trace := trace it @
          map (\<lambda>failure.
                if Property failure \<noteq> [] then DiagErrorf ErrorResourcePropertyInvalidValue urn
                else DiagErrorf ErrorResourceInvalid urn) failures\<rparr>))"

text \<open>
  The first check of \<^verbatim>\<open>makeRegisterResouceSteps\<close> (the block under
  \<^verbatim>\<open>if prov != nil\<close> that follows \<^verbatim>\<open>news, inputs := new.Inputs, new.Inputs\<close>): the
  provider's error is returned; failures are reported and flag the resource invalid; the
  checked inputs are stored in the new state. Without a provider the inputs are the news.
\<close>

definition checkInputs ::
  "plugin_Provider option \<Rightarrow> ref \<Rightarrow> URN \<Rightarrow> PropertyMap \<Rightarrow> PropertyMap \<Rightarrow> PlanIterator \<Rightarrow>
     (error + (PropertyMap \<times> bool)) \<times> PlanIterator" where
  "checkInputs prov new urn olds news it =
     (case prov of
        None \<Rightarrow> (Inr (news, False), it)
      | Some pr \<Rightarrow>
          (let it1 = logCall (ProviderCheck urn olds news) it in
           case Check pr urn olds news of
             Inl err \<Rightarrow> (Inl err, it1)
           | Inr (inputs, failures) \<Rightarrow>
               (case issueCheckErrors new urn failures it1 of
                  (bad, it2) \<Rightarrow>
                    (Inr (inputs, bad),
                     it2\<lparr>heap := (heap it2)(new := (heap it2 new)\<lparr>Inputs := inputs\<rparr>)\<rparr>))))"

text \<open>
  The analyzer loop of \<^verbatim>\<open>makeRegisterResouceSteps\<close>: each analyzer is loaded (an error
  or a missing analyzer ends the function), asked about the type of the new state and the
  checked inputs, and each of its failures flags the resource invalid with a diagnostic.
\<close>

fun runAnalyzers ::
  "Plan \<Rightarrow> string list \<Rightarrow> ref \<Rightarrow> URN \<Rightarrow> PropertyMap \<Rightarrow> bool \<Rightarrow> PlanIterator \<Rightarrow>
     (error + bool) \<times> PlanIterator" where
  "runAnalyzers p [] new urn inputs invalid it = (Inr invalid, it)"
| "runAnalyzers p (a # as) new urn inputs invalid it =
     (case host_Analyzer p a of
        Inl err \<Rightarrow> (Inl err, it)
      | Inr None \<Rightarrow> (Inl (Errorf ''analyzer could not be loaded from your $PATH''), it)
      | Inr (Some analyzer) \<Rightarrow>
          (let it1 = logCall (AnalyzerAnalyze a (Type (heap it new)) inputs) it in
           case Analyze analyzer (Type (heap it new)) inputs of
             Inl err \<Rightarrow> (Inl err, it1)
           | Inr failures \<Rightarrow>
               runAnalyzers p as new urn inputs (invalid \<or> failures \<noteq> [])
                 (it1\<lparr>trace := trace it1 @
                    map (\<lambda>failure. DiagErrorf ErrorAnalyzeResourceFailure urn) failures\<rparr>)))"

definition validationError :: error where
  "validationError =
     Errorf ''One or more resource validation errors occurred; refusing to proceed''"

text \<open>
  The decision of \<^verbatim>\<open>makeRegisterResouceSteps\<close>, from \<^verbatim>\<open>if hasold\<close> to the end. With an
  old state: the types must agree (an assertion); equal inputs give a same step; otherwise
  the provider (if there is one) is asked for a diff, a replacing diff records the URN in
  \<open>replaces\<close>, checks the news again with no old inputs (an error or a failure of this
  check ends the function) and gives the two replacement steps; any other diff gives an
  update. With no old state: a create.
\<close>

definition decideSteps ::
  "Plan \<Rightarrow> RegisterResourceEvent \<Rightarrow> URN \<Rightarrow> ref \<Rightarrow> plugin_Provider option \<Rightarrow> PropertyMap \<Rightarrow>
     PropertyMap \<Rightarrow> PropertyMap \<Rightarrow> PlanIterator \<Rightarrow> ((error + Step list) \<times> PlanIterator) exec" where
  "decideSteps p e urn new prov olds news inputs it =
     (case Olds p urn of
        Some old \<Rightarrow>
          if Type (heap it old) \<noteq> Type (heap it new) then
            Panics ''assertion failed: old != nil && old.Type == new.Type''
          else if \<not> DeepEquals p olds inputs then
            (case (case prov of
                     None \<Rightarrow> (Inr zeroDiffResult, it)
                   | Some pr \<Rightarrow>
                       (Diff pr urn (ID (heap it old)) olds inputs,
                        logCall (ProviderDiff urn (ID (heap it old)) olds inputs) it)) of
               (Inl err, it1) \<Rightarrow> Returns (Inl err, it1)
             | (Inr diff, it1) \<Rightarrow>
                 if Replace diff then
                   (let it2 = it1\<lparr>replaces := insert urn (replaces it1)\<rparr>;
                        steps = [CreateReplacementStep e old new (ReplaceKeys diff),
                                 ReplaceStep old new (ReplaceKeys diff)]
                    in case prov of
                         None \<Rightarrow> Returns (Inr steps, it2)
                       | Some pr \<Rightarrow>
                           (let it3 = logCall (ProviderCheck urn None news) it2 in
                            case Check pr urn None news of
                              Inl err \<Rightarrow> Returns (Inl err, it3)
                            | Inr (inputs2, failures) \<Rightarrow>
                                (case issueCheckErrors new urn failures it3 of
                                   (True, it4) \<Rightarrow> Returns (Inl validationError, it4)
                                 | (False, it4) \<Rightarrow>
                                     Returns (Inr steps,
                                       it4\<lparr>heap := (heap it4)
                                         (new := (heap it4 new)\<lparr>Inputs := inputs2\<rparr>)\<rparr>))))
                 else
                   Returns (Inr [UpdateStep e old new (StableKeys diff)],
                            it1\<lparr>updates := insert urn (updates it1)\<rparr>))
          else
            Returns (Inr [SameStep e old new], it\<lparr>sames := insert urn (sames it)\<rparr>)
      | None \<Rightarrow>
          Returns (Inr [CreateStep e new], it\<lparr>creates := insert urn (creates it)\<rparr>))"

text \<open>
  \<^verbatim>\<open>makeRegisterResouceSteps\<close>: the URN of the goal (a URN seen before flags the resource
  invalid, with a diagnostic), the new state, the old state and its inputs, the provider of
  a custom resource, then the first check, the analyzers, the validity test and the decision.
\<close>

definition goalURN :: "Plan \<Rightarrow> RegisterResourceEvent \<Rightarrow> URN" where
  "goalURN p e =
     NewURN (Target_Name p) (source_Pkg p) (GType (Goal e)) (GName (Goal e))"

text \<open>
  The provider of a goal: the provider of its type when the resource is custom (an error
  when there is none), no provider when it is a logical resource.
\<close>

definition goalProvider :: "Plan \<Rightarrow> Goal \<Rightarrow> error + plugin_Provider option" where
  "goalProvider p res =
     (if GCustom res then map_sum id Some (Provider p (GType res)) else Inr None)"

definition makeRegisterResouceSteps ::
  "Plan \<Rightarrow> RegisterResourceEvent \<Rightarrow> PlanIterator \<Rightarrow> ((error + Step list) \<times> PlanIterator) exec" where
  "makeRegisterResouceSteps p e it =
     (let res = Goal e;
          urn = goalURN p e;
          invalid = (urn \<in> urns it);
          it1 = (if invalid then logCall (DiagErrorf ErrorDuplicateResourceURN urn) it else it)
                  \<lparr>urns := insert urn (urns it)\<rparr>;
          new = next_ref it1;
          it2 = it1\<lparr>heap := (heap it1)
                       (new := NewState (GType res) urn (GCustom res) False [] (GProperties res)
                                 None (GParent res)),
                    next_ref := Suc new\<rparr>;
          olds = (case Olds p urn of Some old \<Rightarrow> Inputs (heap it2 old) | None \<Rightarrow> None)
      in case goalProvider p res of
           Inl err \<Rightarrow> Returns (Inl err, it2)
         | Inr prov \<Rightarrow>
             (let news = Inputs (heap it2 new) in
              case checkInputs prov new urn olds news it2 of
                (Inl err, it3) \<Rightarrow> Returns (Inl err, it3)
              | (Inr (inputs, bad), it3) \<Rightarrow>
                  (case runAnalyzers p (analyzers p) new urn inputs (invalid \<or> bad) it3 of
                     (Inl err, it4) \<Rightarrow> Returns (Inl err, it4)
                   | (Inr invalid', it4) \<Rightarrow>
                       if invalid' then Returns (Inl validationError, it4)
                       else decideSteps p e urn new prov olds news inputs it4)))"

section \<open>Output completion, deletes and snapshots\<close>

text \<open>
  \<^verbatim>\<open>registerResourceOutputs\<close>: the step pending for the event's URN (none is a failed
  assertion) leaves \<open>regs\<close>; outputs that are not nil are added to the step's new state;
  the hook, if any, is called with the step, and its error is returned wrapped; at the end
  the event's \<^verbatim>\<open>Done\<close> is called. The values of \<open>regs\<close> are the steps \<^verbatim>\<open>Apply\<close> stored
  after calling their methods, so the second assertion (a non-nil step) has no failing
  branch here. A step with no new state makes \<^verbatim>\<open>reg.New().AddOutputs\<close> dereference nil.
\<close>

definition registerResourceOutputs ::
  "Plan \<Rightarrow> RegisterResourceOutputsEvent \<Rightarrow> PlanIterator \<Rightarrow> (error option \<times> PlanIterator) exec" where
  "registerResourceOutputs p e it =
     (let urn = EventURN e in
      case regs it urn of
        None \<Rightarrow> Panics ''cannot complete a resource whose registration isn't pending''
      | Some reg \<Rightarrow>
          (let it1 = it\<lparr>regs := (regs it)(urn := None)\<rparr> in
           case (case EventOutputs e of
                   None \<Rightarrow> Returns it1
                 | Some outs \<Rightarrow>
                     (case Step_New reg of
                        None \<Rightarrow> Panics ''nil pointer dereference''
                      | Some new \<Rightarrow>
                          Returns (it1\<lparr>heap := (heap it1)
                            (new := AddOutputs outs (heap it1 new))\<rparr>))) of
             Panics m \<Rightarrow> Panics m
           | Returns it2 \<Rightarrow>
               (case opts_Events p of
                  None \<Rightarrow> Returns (None, logCall (EventDone e) it2)
                | Some ev \<Rightarrow>
                    (let it3 = logCall (ResourceOutputs reg) it2 in
                     case OnResourceOutputs ev reg it2 of
                       Some eventerr \<Rightarrow>
                         Returns (Some (Wrapf eventerr
                           ''resource complete event returned an error''), it3)
                     | None \<Rightarrow> Returns (None, logCall (EventDone e) it3)))))"

text \<open>
  \<^verbatim>\<open>computeDeletes\<close>: the loop runs \<open>i\<close> from \<open>len(prev.Resources) - 1\<close> down to 0;
  \<open>computeDeletes_loop\<close> takes \<open>i + 1\<close>. A live prior resource whose URN was created fails
  the assertion.
\<close>

fun computeDeletes_loop ::
  "PlanIterator \<Rightarrow> ref list \<Rightarrow> nat \<Rightarrow> ref list \<Rightarrow> ref list exec" where
  "computeDeletes_loop it rs 0 dels = Returns dels"
| "computeDeletes_loop it rs (Suc i) dels =
     (let res = rs ! i;
          urn = URN (heap it res)
      in if \<not> (urn \<notin> creates it \<or> Delete (heap it res)) then
           Panics ''assertion failed: !iter.creates[urn] || res.Delete''
         else if Delete (heap it res) \<or> (urn \<notin> sames it \<and> urn \<notin> updates it)
                 \<or> urn \<in> replaces it then
           computeDeletes_loop it rs i (dels @ [res])
         else computeDeletes_loop it rs i dels)"

definition computeDeletes :: "Plan \<Rightarrow> PlanIterator \<Rightarrow> ref list exec" where
  "computeDeletes p it =
     (case prev p of
        None \<Rightarrow> Returns []
      | Some rs \<Rightarrow> computeDeletes_loop it rs (length rs) [])"

text \<open>\<^verbatim>\<open>nextDeleteStep\<close>: the head of the delete queue becomes a delete step.\<close>

definition nextDeleteStep :: "PlanIterator \<Rightarrow> Step option \<times> PlanIterator" where
  "nextDeleteStep it =
     (case delqueue it of
        del # rest \<Rightarrow>
          (let urn = URN (heap it del);
               it1 = it\<lparr>delqueue := rest, deletes := insert urn (deletes it)\<rparr>
           in (Some (DeleteStep del (urn \<in> replaces it1)), it1))
      | [] \<Rightarrow> (None, it))"


definition AppendStateSnapshot :: "ref option \<Rightarrow> PlanIterator \<Rightarrow> PlanIterator exec" where
  "AppendStateSnapshot state it =
     (case state of
        None \<Rightarrow> Panics ''assertion failed: state != nil''
      | Some s \<Rightarrow> Returns (it\<lparr>resources := resources it @ [s]\<rparr>))"

text \<open>
  \<^verbatim>\<open>Snap\<close>: a copy of the resources of this plan, and, while the plan is not done and
  there is a prior snapshot, each prior resource that is not in \<open>dones\<close>, appended in the
  order of the prior list. The manifest and the snapshot are made of what the plan gives.
\<close>

record Manifest =
  Time :: nat
  Version :: string
  Plugins :: "string list"
  Magic :: string

record Snapshot =
  Namespace :: string
  Manifest :: Manifest
  Resources :: "ref list"

fun Snap_loop :: "PlanIterator \<Rightarrow> ref list \<Rightarrow> ref list \<Rightarrow> ref list" where
  "Snap_loop it [] resources' = resources'"
| "Snap_loop it (res # rest) resources' =
     (if res \<notin> dones it then Snap_loop it rest (resources' @ [res])
      else Snap_loop it rest resources')"

definition SnapVersions :: "Plan \<Rightarrow> string \<times> string list" where
  "SnapVersions p = (version_Version p, host_ListPlugins p)"

definition Snap :: "Plan \<Rightarrow> PlanIterator \<Rightarrow> Snapshot" where
  "Snap p it =
     (let resources0 = resources it;
          resources1 =
            (if \<not> done_flag it then
               (case prev p of
                  Some rs \<Rightarrow> Snap_loop it rs resources0
                | None \<Rightarrow> resources0)
             else resources0);
          (v, plugs) = SnapVersions p
      in \<lparr>Namespace = Target_Name p,
          Manifest = \<lparr>Time = time_Now p, Version = v, Plugins = plugs,
                      Magic = NewMagic p (time_Now p) v plugs\<rparr>,
          Resources = resources1\<rparr>)"

section \<open>Apply and Next\<close>

text \<open>
  \<^verbatim>\<open>Apply\<close>: the pre hook (its error ends the call with \<^verbatim>\<open>StatusOK\<close>), the step's own
  \<^verbatim>\<open>Apply\<close>, the registration of a logical step that succeeded (a URN already pending
  ends the call with \<^verbatim>\<open>StatusOK\<close> and an error), the post hook, and the step's results.
\<close>

definition Apply ::
  "Plan \<Rightarrow> Step \<Rightarrow> bool \<Rightarrow> PlanIterator \<Rightarrow> (Status \<times> error option) \<times> PlanIterator" where
  "Apply p step preview it =
     (let urn = Step_URN (heap it) step in
      case (case opts_Events p of
              None \<Rightarrow> (None, None, it)
            | Some ev \<Rightarrow>
                (case OnResourceStepPre ev step it of
                   (ctx, eventerr) \<Rightarrow> (ctx, eventerr, logCall (StepPre step) it))) of
        (eventctx, Some eventerr, it1) \<Rightarrow>
          ((StatusOK, Some (Wrapf eventerr ''pre-step event returned an error'')), it1)
      | (eventctx, None, it1) \<Rightarrow>
          (case step_Apply p step preview (logCall (StepApply step preview) it1) of
             ((status, err), it2) \<Rightarrow>
               if err = None \<and> Logical step \<and> regs it2 urn \<noteq> None then
                 ((StatusOK, Some (Errorf ''resource registered twice'')), it2)
               else
                 (let it3 = (if err = None \<and> Logical step
                             then it2\<lparr>regs := (regs it2)(urn \<mapsto> step)\<rparr> else it2)
                  in case opts_Events p of
                       None \<Rightarrow> ((status, err), it3)
                     | Some ev \<Rightarrow>
                         (let it4 = logCall (StepPost eventctx step status err) it3 in
                          case OnResourceStepPost ev eventctx step status err it3 of
                            Some eventerr \<Rightarrow>
                              ((status, Some (Wrapf eventerr
                                 ''post-step event returned an error'')), it4)
                          | None \<Rightarrow> ((status, err), it4)))))"

text \<open>\<^verbatim>\<open>src.Next()\<close>: the next answer of the source, nil once its answers are used up.\<close>

definition src_Next :: "PlanIterator \<Rightarrow> SourceResult \<times> PlanIterator" where
  "src_Next it =
     (case src it of
        [] \<Rightarrow> (SrcEnd, logCall (SrcNext SrcEnd) it)
      | r # rs \<Rightarrow> (r, logCall (SrcNext r) (it\<lparr>src := rs\<rparr>)))"

text \<open>
  \<^verbatim>\<open>Next\<close>. One round of the loop \<^verbatim>\<open>for !iter.done\<close> either returns or goes round
  again: after an output completion (\<^verbatim>\<open>continue outer\<close>), and after the source has ended
  (the deletes are computed and the next round drains them). The result is the step (or
  nil) and the error (or nil).
\<close>

function Next ::
  "Plan \<Rightarrow> PlanIterator \<Rightarrow> ((Step option \<times> error option) \<times> PlanIterator) exec" where
  "Next p it =
     (if done_flag it then Returns ((None, None), it)
      else
        (case stepqueue it of
           step # rest \<Rightarrow> Returns ((Some step, None), it\<lparr>stepqueue := rest\<rparr>)
         | [] \<Rightarrow>
             if \<not> srcdone it then
               (case src_Next it of
                  (SrcError err, it1) \<Rightarrow> Returns ((None, Some err), it1)
                | (SrcEvent (RegisterEv e), it1) \<Rightarrow>
                    (case makeRegisterResouceSteps p e it1 of
                       Panics m \<Rightarrow> Panics m
                     | Returns (Inl steperr, it2) \<Rightarrow> Returns ((None, Some steperr), it2)
                     | Returns (Inr steps, it2) \<Rightarrow>
                         (case steps of
                            [] \<Rightarrow> Panics ''assertion failed: len(steps) > 0''
                          | s # ss \<Rightarrow>
                              Returns ((Some s, None),
                                if ss \<noteq> [] then it2\<lparr>stepqueue := ss\<rparr> else it2)))
                | (SrcEvent (OutputsEv e), it1) \<Rightarrow>
                    (case registerResourceOutputs p e it1 of
                       Panics m \<Rightarrow> Panics m
                     | Returns (Some err, it2) \<Rightarrow> Returns ((None, Some err), it2)
                     | Returns (None, it2) \<Rightarrow> Next p it2)
                | (SrcEvent UnrecognizedEv, it1) \<Rightarrow>
                    Panics ''Unrecognized intent from source iterator''
                | (SrcEnd, it1) \<Rightarrow>
                    (case computeDeletes p (it1\<lparr>srcdone := True\<rparr>) of
                       Panics m \<Rightarrow> Panics m
                     | Returns dels \<Rightarrow> Next p (it1\<lparr>srcdone := True, delqueue := dels\<rparr>)))
             else
               (case nextDeleteStep it of
                  (Some step, it1) \<Rightarrow> Returns ((Some step, None), it1)
                | (None, it1) \<Rightarrow> Returns ((None, None), it1\<lparr>done_flag := True\<rparr>))))"
  by pat_completeness auto
termination
proof (relation "measure (\<lambda>(p, it). 2 * length (src it) + (if srcdone it then 0 else 1))")
  show "wf (measure (\<lambda>(p, it). 2 * length (src it) + (if srcdone it then 0 else 1)))"
    by simp
next
  fix p :: Plan and it :: PlanIterator and x xa y x3 x2 x2a x2b xb yb x2c
  assume a: "\<not> done_flag it" "\<not> srcdone it"
    and s: "(x, y) = src_Next it" "x = SrcEvent x2" "x2 = OutputsEv x2a"
    and r: "registerResourceOutputs p x2a y = Returns x2b" "(xb, yb) = x2b" "xb = None"
  from s have "length (src y) < length (src it)" "srcdone y = srcdone it"
    by (auto simp: src_Next_def logCall_def split: list.splits)
  moreover from r have "src yb = src y" "srcdone yb = srcdone y"
    by (auto simp: registerResourceOutputs_def logCall_def Let_def
        split: option.splits exec.splits)
  ultimately show "((p, yb), (p, it)) \<in>
      measure (\<lambda>(p, it). 2 * length (src it) + (if srcdone it then 0 else 1))"
    using a by simp
next
  fix p :: Plan and it :: PlanIterator and x y x2
  assume a: "\<not> done_flag it" "\<not> srcdone it"
    and s: "(x, y) = src_Next it" "x = SrcEnd"
  from s have "length (src y) \<le> length (src it)"
    by (auto simp: src_Next_def logCall_def split: list.splits)
  then show "((p, y\<lparr>srcdone := True, delqueue := x2\<rparr>), (p, it)) \<in>
      measure (\<lambda>(p, it). 2 * length (src it) + (if srcdone it then 0 else 1))"
    using a by simp
qed

declare Next.simps [simp del]

section \<open>Callers, well-formed plans and properties of lists\<close>

text \<open>The resources of the prior snapshot; none when there is no prior snapshot.\<close>

definition prior :: "Plan \<Rightarrow> ref list" where
  "prior p = (case prev p of None \<Rightarrow> [] | Some rs \<Rightarrow> rs)"

text \<open>
  The test of \<^verbatim>\<open>computeDeletes\<close> in words: a prior resource is to be deleted when it is
  delete-marked, or its URN is in neither \<open>sames\<close> nor \<open>updates\<close>, or its URN is in
  \<open>replaces\<close>.
\<close>

definition toDelete :: "PlanIterator \<Rightarrow> ref \<Rightarrow> bool" where
  "toDelete it res \<longleftrightarrow>
     Delete (heap it res)
     \<or> (URN (heap it res) \<notin> sames it \<and> URN (heap it res) \<notin> updates it)
     \<or> URN (heap it res) \<in> replaces it"

text \<open>A caller that calls \<^verbatim>\<open>Next\<close> \<open>n\<close> times in a row, and what it is handed.\<close>

fun Nexts ::
  "Plan \<Rightarrow> nat \<Rightarrow> PlanIterator \<Rightarrow> ((Step option \<times> error option) list \<times> PlanIterator) exec" where
  "Nexts p 0 it = Returns ([], it)"
| "Nexts p (Suc n) it =
     (case Next p it of
        Panics m \<Rightarrow> Panics m
      | Returns (r, it1) \<Rightarrow>
          (case Nexts p n it1 of
             Panics m \<Rightarrow> Panics m
           | Returns (rs, it2) \<Rightarrow> Returns (r # rs, it2)))"


text \<open>
  What the planner learns from the provider it has, if it has one: the answer of a check
  (with no provider the inputs are the news, with no failure) and the answer of a diff
  (with no provider the zero diff).
\<close>

definition checked ::
  "plugin_Provider option \<Rightarrow> URN \<Rightarrow> PropertyMap \<Rightarrow> PropertyMap \<Rightarrow>
     error + (PropertyMap \<times> CheckFailure list)" where
  "checked prov urn olds news =
     (case prov of None \<Rightarrow> Inr (news, []) | Some pr \<Rightarrow> Check pr urn olds news)"


text \<open>The analyzers the log says were asked, in the order of the calls.\<close>

fun analyzed :: "Call list \<Rightarrow> string list" where
  "analyzed [] = []"
| "analyzed (AnalyzerAnalyze a t inputs # cs) = a # analyzed cs"
| "analyzed (c # cs) = analyzed cs"

text \<open>
  The answers the log says the source gave, in the order of the calls. And the iterator as
  a registration that passed validation leaves it before the steps are decided: the URN
  recorded, the new state allocated with its checked inputs, the check and the analyzer
  calls logged.
\<close>

fun sourced :: "Call list \<Rightarrow> SourceResult list" where
  "sourced [] = []"
| "sourced (SrcNext r # cs) = r # sourced cs"
| "sourced (c # cs) = sourced cs"

definition validated ::
  "Plan \<Rightarrow> RegisterResourceEvent \<Rightarrow> plugin_Provider option \<Rightarrow> PropertyMap \<Rightarrow> PropertyMap \<Rightarrow>
     PlanIterator \<Rightarrow> PlanIterator" where
  "validated p e prov olds inputs it =
     it\<lparr>urns := insert (goalURN p e) (urns it),
        heap := (heap it)
          (next_ref it := NewState (GType (Goal e)) (goalURN p e) (GCustom (Goal e)) False []
                            inputs None (GParent (Goal e))),
        next_ref := Suc (next_ref it),
        trace := trace it
          @ (case prov of
               None \<Rightarrow> []
             | Some pr \<Rightarrow> [ProviderCheck (goalURN p e) olds (GProperties (Goal e))])
          @ map (\<lambda>a. AnalyzerAnalyze a (GType (Goal e)) inputs) (analyzers p)\<rparr>"

section \<open>Runs of the iterator\<close>

text \<open>
  What a caller does with the iterator it was handed by \<^verbatim>\<open>Start\<close>: it calls \<^verbatim>\<open>Next\<close> and it
  calls \<^verbatim>\<open>Apply\<close> on steps, in any order. A run ends in the iterator it leaves behind, or in
  a panic.
\<close>

datatype Action = CallNext | CallApply Step bool

fun run :: "Plan \<Rightarrow> Action list \<Rightarrow> PlanIterator \<Rightarrow> PlanIterator exec" where
  "run p [] it = Returns it"
| "run p (CallNext # acts) it =
     (case Next p it of
        Panics m \<Rightarrow> Panics m
      | Returns (r, it1) \<Rightarrow> run p acts it1)"
| "run p (CallApply step preview # acts) it = run p acts (snd (Apply p step preview it))"

text \<open>
  The single moves a run is made of: a queued step is popped; the source answers an error,
  a registration, an output completion or its end (then the deletes are computed); a
  delete is handed out; the plan is done; a step is applied.
\<close>

inductive move :: "Plan \<Rightarrow> PlanIterator \<Rightarrow> PlanIterator \<Rightarrow> bool" for p :: Plan where
  pop: "\<not> done_flag it \<Longrightarrow> stepqueue it = step # rest \<Longrightarrow>
     move p it (it\<lparr>stepqueue := rest\<rparr>)"
| source_error: "\<not> done_flag it \<Longrightarrow> \<not> srcdone it \<Longrightarrow> src_Next it = (SrcError err, it1) \<Longrightarrow>
     move p it it1"
| register: "\<not> done_flag it \<Longrightarrow> \<not> srcdone it \<Longrightarrow>
     src_Next it = (SrcEvent (RegisterEv e), it1) \<Longrightarrow>
     makeRegisterResouceSteps p e it1 = Returns (res, it2) \<Longrightarrow>
     it3 = it2 \<or> it3 = it2\<lparr>stepqueue := ss\<rparr> \<Longrightarrow>
     move p it it3"
| outputs: "\<not> done_flag it \<Longrightarrow> \<not> srcdone it \<Longrightarrow>
     src_Next it = (SrcEvent (OutputsEv e), it1) \<Longrightarrow>
     registerResourceOutputs p e it1 = Returns (res, it2) \<Longrightarrow>
     move p it it2"
| source_end: "\<not> done_flag it \<Longrightarrow> \<not> srcdone it \<Longrightarrow> src_Next it = (SrcEnd, it1) \<Longrightarrow>
     computeDeletes p (it1\<lparr>srcdone := True\<rparr>) = Returns dels \<Longrightarrow>
     move p it (it1\<lparr>srcdone := True, delqueue := dels\<rparr>)"
| delete: "\<not> done_flag it \<Longrightarrow> srcdone it \<Longrightarrow> delqueue it = d # rest \<Longrightarrow>
     move p it (it\<lparr>delqueue := rest, deletes := insert (URN (heap it d)) (deletes it)\<rparr>)"
| finish: "\<not> done_flag it \<Longrightarrow> srcdone it \<Longrightarrow> delqueue it = [] \<Longrightarrow>
     move p it (it\<lparr>done_flag := True\<rparr>)"
| applied: "move p it (snd (Apply p step preview it))"

text \<open>
  What is taken for granted about code that is not the iterator's. A step's own
  \<^verbatim>\<open>Apply\<close> works on the states and on the snapshot lists (\<^verbatim>\<open>AppendStateSnapshot\<close>,
  \<^verbatim>\<open>MarkStateSnapshot\<close>): it leaves the rest of the iterator alone, it does not give an
  existing state another URN, and it does not free memory. The map \<^verbatim>\<open>p.Olds()\<close> is made
  from the prior snapshot: an old state is a prior resource and is filed under its URN;
  and the prior states are allocated.
\<close>

definition step_Apply_frame :: "Plan \<Rightarrow> bool" where
  "step_Apply_frame p \<longleftrightarrow>
     (\<forall>step preview it.
        (let it' = snd (step_Apply p step preview it)
         in it' = it\<lparr>heap := heap it', next_ref := next_ref it',
                    resources := resources it', dones := dones it'\<rparr>
            \<and> next_ref it \<le> next_ref it'
            \<and> (\<forall>r<next_ref it. URN (heap it' r) = URN (heap it r))))"

definition plan_wf :: "Plan \<Rightarrow> bool" where
  "plan_wf p \<longleftrightarrow>
     (\<forall>urn old. Olds p urn = Some old \<longrightarrow>
        old \<in> set (prior p) \<and> URN (prior_heap p old) = urn)
     \<and> (\<forall>r \<in> set (prior p). r < prior_top p)"

text \<open>The source has ended at most once, and then with its last answer.\<close>

fun ends_once :: "SourceResult list \<Rightarrow> bool" where
  "ends_once [] = True"
| "ends_once (r # rs) = (if r = SrcEnd then rs = [] else ends_once rs)"

text \<open>
  Reading aids for what a registration does to the iterator. \<open>classed\<close>: the URN went to
  exactly one of the four sets (and to \<open>replaces\<close> only with an old state); \<open>unclassed\<close>: the
  four sets are as they were. \<open>registered\<close>: the iterator once the goal's URN is recorded
  (with a diagnostic when it was seen before) and its new state allocated; \<open>oldInputs\<close>: the
  inputs of the old state of the goal's URN, nil when there is none.
\<close>

definition classed :: "Plan \<Rightarrow> URN \<Rightarrow> PlanIterator \<Rightarrow> PlanIterator \<Rightarrow> bool" where
  "classed p urn it it' \<longleftrightarrow>
     (creates it' = insert urn (creates it) \<and> updates it' = updates it
        \<and> sames it' = sames it \<and> replaces it' = replaces it)
     \<or> (creates it' = creates it \<and> updates it' = insert urn (updates it)
        \<and> sames it' = sames it \<and> replaces it' = replaces it)
     \<or> (creates it' = creates it \<and> updates it' = updates it
        \<and> sames it' = insert urn (sames it) \<and> replaces it' = replaces it)
     \<or> (creates it' = creates it \<and> updates it' = updates it
        \<and> sames it' = sames it \<and> replaces it' = insert urn (replaces it)
        \<and> Olds p urn \<noteq> None)"

definition unclassed :: "PlanIterator \<Rightarrow> PlanIterator \<Rightarrow> bool" where
  "unclassed it it' \<longleftrightarrow>
     creates it' = creates it \<and> updates it' = updates it
     \<and> sames it' = sames it \<and> replaces it' = replaces it"

definition registered :: "Plan \<Rightarrow> RegisterResourceEvent \<Rightarrow> PlanIterator \<Rightarrow> PlanIterator" where
  "registered p e it =
     it\<lparr>urns := insert (goalURN p e) (urns it),
        heap := (heap it)
          (next_ref it := NewState (GType (Goal e)) (goalURN p e) (GCustom (Goal e)) False []
                            (GProperties (Goal e)) None (GParent (Goal e))),
        next_ref := Suc (next_ref it),
        trace := trace it @
          (if goalURN p e \<in> urns it
           then [DiagErrorf ErrorDuplicateResourceURN (goalURN p e)] else [])\<rparr>"

definition oldInputs :: "Plan \<Rightarrow> RegisterResourceEvent \<Rightarrow> PlanIterator \<Rightarrow> PropertyMap" where
  "oldInputs p e it =
     (case Olds p (goalURN p e) of
        Some old \<Rightarrow> Inputs (heap (registered p e it) old)
      | None \<Rightarrow> None)"

text \<open>
  What holds of the iterator all along a run. About the source: it has ended at most once,
  with its last answer, and then \<open>srcdone\<close> is set. About the plan: the sets \<open>creates\<close>,
  \<open>updates\<close> and \<open>sames\<close> are disjoint and, with \<open>replaces\<close>, hold URNs that were seen; a
  replaced URN has an old state; once the source is done every replaced URN is deleted or
  still queued for deletion; a plan that is done has nothing left to delete; the queued
  deletes are prior resources; and the prior states keep their addresses and URNs.
\<close>

definition source_inv :: "PlanIterator \<Rightarrow> bool" where
  "source_inv it \<longleftrightarrow>
     ends_once (sourced (trace it)) \<and> (SrcEnd \<in> set (sourced (trace it)) \<longrightarrow> srcdone it)"

definition plan_inv :: "Plan \<Rightarrow> PlanIterator \<Rightarrow> bool" where
  "plan_inv p it \<longleftrightarrow>
     creates it \<inter> updates it = {} \<and> creates it \<inter> sames it = {} \<and> updates it \<inter> sames it = {}
     \<and> creates it \<union> updates it \<union> sames it \<union> replaces it \<subseteq> urns it
     \<and> replaces it \<subseteq> dom (Olds p)
     \<and> (srcdone it \<longrightarrow>
          (\<forall>u \<in> replaces it. u \<in> deletes it \<or> (\<exists>d \<in> set (delqueue it). URN (heap it d) = u)))
     \<and> (done_flag it \<longrightarrow> srcdone it \<and> delqueue it = [])
     \<and> set (delqueue it) \<subseteq> set (prior p)
     \<and> prior_top p \<le> next_ref it
     \<and> (\<forall>r<prior_top p. URN (heap it r) = URN (prior_heap p r))"

section \<open>A plan to evaluate on\<close>

text \<open>
  A prior snapshot of two resources, the second a child of the first, a provider that
  accepts every input and never replaces, property maps compared at their key \<open>k\<close>, no
  analyzers and no event hooks; and the iterator \<^verbatim>\<open>Start\<close> hands out for it when the
  source has no event.
\<close>

definition blankState :: State where
  "blankState = NewState [] [] False False [] None None []"

definition ex_heap :: "ref \<Rightarrow> State" where
  "ex_heap = (\<lambda>r. blankState)
     (1 := NewState ''p:m:A'' ''urn:pulumi:t::k::p:m:A::a'' True False ''id1'' (Some [''k'' \<mapsto> PNumber 1]) None [],
      2 := NewState ''p:m:B'' ''urn:pulumi:t::k::p:m:B::b'' True False ''id2'' None None ''urn:pulumi:t::k::p:m:A::a'')"

definition ex_provider :: plugin_Provider where
  "ex_provider = \<lparr>Check = (\<lambda>urn olds news. Inr (news, [])),
                  Diff = (\<lambda>urn i olds news. Inr zeroDiffResult)\<rparr>"

definition ex_plan :: Plan where
  "ex_plan =
     \<lparr>Target_Name = ''t'', source_Pkg = ''k'', prev = Some [1, 2],
      Olds = [''urn:pulumi:t::k::p:m:A::a'' \<mapsto> 1, ''urn:pulumi:t::k::p:m:B::b'' \<mapsto> 2], analyzers = [],
      host_Provider = (\<lambda>pkg. Inr (Some ex_provider)),
      host_Analyzer = (\<lambda>a. Inr None), host_ListPlugins = [],
      DeepEquals = (\<lambda>a b. (case a of None \<Rightarrow> None | Some m \<Rightarrow> m ''k'')
                            = (case b of None \<Rightarrow> None | Some m \<Rightarrow> m ''k'')),
      step_Apply = (\<lambda>step preview it. ((StatusOK, None), it)),
      opts_Events = None, configure = None, source_Iterate = Inr [],
      prior_heap = ex_heap, prior_top = 3, time_Now = 0, version_Version = ''v'',
      NewMagic = (\<lambda>t v plugs. v)\<rparr>"

definition ex_start :: PlanIterator where
  "ex_start =
     \<lparr>src = [], urns = {}, creates = {}, updates = {}, replaces = {},
      deletes = {}, sames = {}, stepqueue = [], delqueue = [],
      resources = [], regs = Map.empty, dones = {}, srcdone = False,
      done_flag = False, heap = ex_heap, next_ref = 3, trace = []\<rparr>"

text \<open>
  A create step for the first prior state, a step whose own \<^verbatim>\<open>Apply\<close> fails after
  appending a state, event hooks that answer what they are told to, an iterator with that
  step pending, and an output completion for it.
\<close>

definition ex_step :: Step where
  "ex_step = CreateStep (RegisterResourceEvent
     \<lparr>GType = ''p:m:A'', GName = ''a'', GCustom = True, GProperties = None, GParent = []\<rparr>) 1"

definition ex_failing_apply ::
  "Step \<Rightarrow> bool \<Rightarrow> PlanIterator \<Rightarrow> (Status \<times> error option) \<times> PlanIterator" where
  "ex_failing_apply step preview it =
     ((StatusUnknown, Some (Errorf ''step failed'')), it\<lparr>resources := resources it @ [1]\<rparr>)"

definition ex_events :: "error option \<Rightarrow> error option \<Rightarrow> error option \<Rightarrow> Events" where
  "ex_events pre post outs =
     \<lparr>OnResourceStepPre = (\<lambda>step it. (Some 7, pre)),
      OnResourceStepPost = (\<lambda>ctx step status err it. post),
      OnResourceOutputs = (\<lambda>step it. outs)\<rparr>"

definition ex_pending :: PlanIterator where
  "ex_pending =
     ex_start\<lparr>regs := [''urn:pulumi:t::k::p:m:A::a'' \<mapsto> ex_step],
       heap := ex_heap(1 := (ex_heap 1)\<lparr>Outputs :=
                 Some [''a'' \<mapsto> PNumber 1, ''b'' \<mapsto> PNumber 2]\<rparr>)\<rparr>"

definition ex_outputs :: RegisterResourceOutputsEvent where
  "ex_outputs = RegisterResourceOutputsEvent ''urn:pulumi:t::k::p:m:A::a'' (Some [''b'' \<mapsto> PNumber 3])"





text \<open>
  A registration of a custom resource of the first prior state's type with one property,
  and a plan whose provider answers every diff with a replacement.
\<close>

definition ex_register :: "string \<Rightarrow> int \<Rightarrow> RegisterResourceEvent" where
  "ex_register name v = RegisterResourceEvent
     \<lparr>GType = ''p:m:A'', GName = name, GCustom = True,
      GProperties = Some [''k'' \<mapsto> PNumber v], GParent = []\<rparr>"

definition ex_replacing_provider :: plugin_Provider where
  "ex_replacing_provider =
     \<lparr>Check = (\<lambda>urn olds news. Inr (news, [])),
      Diff = (\<lambda>urn i olds news.
                Inr \<lparr>Replace = True, ReplaceKeys = [''k''], StableKeys = []\<rparr>)\<rparr>"

definition ex_replacing_plan :: Plan where
  "ex_replacing_plan = ex_plan\<lparr>host_Provider := (\<lambda>pkg. Inr (Some ex_replacing_provider))\<rparr>"

text \<open>
  A provider whose check fails when it is given no old inputs and that answers every diff
  with a replacement, in a plan with one analyzer that reports nothing.
\<close>

definition ex_strict_provider :: plugin_Provider where
  "ex_strict_provider =
     \<lparr>Check = (\<lambda>urn olds news.
                 case olds of
                   None \<Rightarrow> Inr (news, [CheckFailure ''k'' ''no default''])
                 | Some m \<Rightarrow> Inr (news, [])),
      Diff = (\<lambda>urn i olds news.
                Inr \<lparr>Replace = True, ReplaceKeys = [''k''], StableKeys = []\<rparr>)\<rparr>"

definition ex_strict_plan :: Plan where
  "ex_strict_plan =
     ex_plan\<lparr>host_Provider := (\<lambda>pkg. Inr (Some ex_strict_provider)),
       analyzers := [''policy''],
       host_Analyzer := (\<lambda>a. Inr (Some \<lparr>Analyze = (\<lambda>t inputs. Inr [])\<rparr>))\<rparr>"





text \<open>
  The replacing plan with a source that registers the first prior resource with a changed
  property.
\<close>

definition ex_replacing_run :: Plan where
  "ex_replacing_run =
     ex_replacing_plan\<lparr>source_Iterate := Inr [SrcEvent (RegisterEv (ex_register ''a'' 2))]\<rparr>"

section \<open>Theorems\<close>

lemma Snap_loop_filter: "Snap_loop it rs acc = acc @ filter (\<lambda>res. res \<notin> dones it) rs"
  by (induction rs arbitrary: acc) auto

text \<open>
  C8. The resource list of the snapshot \<^verbatim>\<open>Snap\<close> returns is the list \<open>resources\<close>,
  followed, only when the plan is not done and there is a prior snapshot, by the prior
  resources that are not in \<open>dones\<close>, in the order of the prior snapshot; when the plan is
  done nothing is appended. \<open>resources\<close> is the list \<^verbatim>\<open>AppendStateSnapshot\<close> appends to.
\<close>

theorem Snap_resources:
  "Resources (Snap p it) =
     resources it @
       (if \<not> done_flag it
        then (case prev p of Some rs \<Rightarrow> filter (\<lambda>res. res \<notin> dones it) rs | None \<Rightarrow> [])
        else [])
   \<and> AppendStateSnapshot (Some s) it = Returns (it\<lparr>resources := resources it @ [s]\<rparr>)"
  by (simp add: Snap_def SnapVersions_def Snap_loop_filter AppendStateSnapshot_def
      split: option.splits)

lemma computeDeletes_loop_Suc:
  "computeDeletes_loop it rs (Suc i) dels =
     (if URN (heap it (rs ! i)) \<in> creates it \<and> \<not> Delete (heap it (rs ! i))
      then Panics ''assertion failed: !iter.creates[urn] || res.Delete''
      else computeDeletes_loop it rs i (if toDelete it (rs ! i) then dels @ [rs ! i] else dels))"
  by (simp add: Let_def toDelete_def)

lemma computeDeletes_loop_eq:
  "n \<le> length rs \<Longrightarrow>
   computeDeletes_loop it rs n dels =
     (if \<exists>i<n. URN (heap it (rs ! i)) \<in> creates it \<and> \<not> Delete (heap it (rs ! i))
      then Panics ''assertion failed: !iter.creates[urn] || res.Delete''
      else Returns (dels @ filter (toDelete it) (rev (take n rs))))"
proof (induction n arbitrary: dels)
  case 0
  then show ?case by simp
next
  case (Suc n)
  then have n: "n < length rs" by simp
  have t: "rev (take (Suc n) rs) = rs ! n # rev (take n rs)"
    using n by (simp add: take_Suc_conv_app_nth)
  have e: "(\<exists>i<Suc n. URN (heap it (rs ! i)) \<in> creates it \<and> \<not> Delete (heap it (rs ! i)))
      \<longleftrightarrow> (URN (heap it (rs ! n)) \<in> creates it \<and> \<not> Delete (heap it (rs ! n)))
        \<or> (\<exists>i<n. URN (heap it (rs ! i)) \<in> creates it \<and> \<not> Delete (heap it (rs ! i)))"
    by (auto simp: less_Suc_eq)
  show ?case
    unfolding computeDeletes_loop_Suc e t
    using Suc.IH [of "dels @ [rs ! n]"] Suc.IH [of dels] n
    by (auto simp del: computeDeletes_loop.simps)
qed

lemma computeDeletes_eq:
  "computeDeletes p it =
     (if \<exists>res \<in> set (prior p). URN (heap it res) \<in> creates it \<and> \<not> Delete (heap it res)
      then Panics ''assertion failed: !iter.creates[urn] || res.Delete''
      else Returns (filter (toDelete it) (rev (prior p))))"
proof (cases "prev p")
  case None
  then show ?thesis by (simp add: computeDeletes_def prior_def)
next
  case (Some rs)
  have "(\<exists>i<length rs. URN (heap it (rs ! i)) \<in> creates it \<and> \<not> Delete (heap it (rs ! i)))
      \<longleftrightarrow> (\<exists>res \<in> set rs. URN (heap it res) \<in> creates it \<and> \<not> Delete (heap it res))"
    by (metis in_set_conv_nth)
  then show ?thesis
    using Some computeDeletes_loop_eq [of "length rs" rs it "[]"]
    by (simp add: computeDeletes_def prior_def)
qed

lemma Next_drain_step:
  "\<not> done_flag it \<Longrightarrow> srcdone it \<Longrightarrow> stepqueue it = [] \<Longrightarrow> delqueue it = d # ds \<Longrightarrow>
   Next p it = Returns ((Some (DeleteStep d (URN (heap it d) \<in> replaces it)), None),
     it\<lparr>delqueue := ds, deletes := insert (URN (heap it d)) (deletes it)\<rparr>)"
  by (subst Next.simps) (simp add: nextDeleteStep_def Let_def)

lemma Next_drain_end:
  "\<not> done_flag it \<Longrightarrow> srcdone it \<Longrightarrow> stepqueue it = [] \<Longrightarrow> delqueue it = [] \<Longrightarrow>
   Next p it = Returns ((None, None), it\<lparr>done_flag := True\<rparr>)"
  by (subst Next.simps) (simp add: nextDeleteStep_def Let_def)

lemma Nexts_drain:
  "\<not> done_flag it \<Longrightarrow> srcdone it \<Longrightarrow> stepqueue it = [] \<Longrightarrow> delqueue it = dels \<Longrightarrow>
   Nexts p (Suc (length dels)) it =
     Returns (map (\<lambda>d. (Some (DeleteStep d (URN (heap it d) \<in> replaces it)), None)) dels
                @ [(None, None)],
              it\<lparr>delqueue := [],
                 deletes := deletes it \<union> (\<lambda>d. URN (heap it d)) ` set dels,
                 done_flag := True\<rparr>)"
proof (induction dels arbitrary: it)
  case Nil
  then show ?case by (simp add: Next_drain_end)
next
  case (Cons d ds)
  let ?it1 = "it\<lparr>delqueue := ds, deletes := insert (URN (heap it d)) (deletes it)\<rparr>"
  have n: "Next p it = Returns ((Some (DeleteStep d (URN (heap it d) \<in> replaces it)), None), ?it1)"
    using Cons.prems by (simp add: Next_drain_step)
  have "Nexts p (Suc (length ds)) ?it1 =
     Returns (map (\<lambda>d. (Some (DeleteStep d (URN (heap ?it1 d) \<in> replaces ?it1)), None)) ds
                @ [(None, None)],
              ?it1\<lparr>delqueue := [],
                 deletes := deletes ?it1 \<union> (\<lambda>d. URN (heap ?it1 d)) ` set ds,
                 done_flag := True\<rparr>)"
    using Cons.prems by (intro Cons.IH) simp_all
  then show ?case
    using n by (simp del: Nexts.simps add: Nexts.simps(2) [of p "Suc (length ds)"])
qed

lemma Next_source_end:
  assumes "\<not> done_flag it" "\<not> srcdone it" "stepqueue it = []" "fst (src_Next it) = SrcEnd"
    and "computeDeletes p it = Returns dels"
  shows "Next p it = Next p ((snd (src_Next it))\<lparr>srcdone := True, delqueue := dels\<rparr>)"
proof -
  obtain it1 where s: "src_Next it = (SrcEnd, it1)"
    using assms(4) by (cases "src_Next it") auto
  have h: "heap it1 = heap it" "creates it1 = creates it" "sames it1 = sames it"
    "updates it1 = updates it" "replaces it1 = replaces it"
    using s by (auto simp: src_Next_def logCall_def split: list.splits)
  have "computeDeletes p (it1\<lparr>srcdone := True\<rparr>) = computeDeletes p it"
    by (simp add: computeDeletes_eq h toDelete_def [abs_def])
  then show ?thesis
    using assms s by (subst Next.simps) simp
qed


text \<open>
  C3. \<^verbatim>\<open>computeDeletes\<close> walks the prior snapshot from its last index to its first and
  enqueues exactly the prior resources that are delete-marked, or whose URN is in neither
  \<open>sames\<close> nor \<open>updates\<close>, or whose URN is in \<open>replaces\<close>: its result is the reversed
  prior list filtered by that test (a live prior resource whose URN was created fails the
  assertion instead). When the source ends, the calls of \<^verbatim>\<open>Next\<close> that drain the queue
  hand out one delete step per enqueued resource, in that reverse order, and then nil.
\<close>

theorem computeDeletes_reverse_order:
  "computeDeletes p it =
     (if \<exists>res \<in> set (prior p). URN (heap it res) \<in> creates it \<and> \<not> Delete (heap it res)
      then Panics ''assertion failed: !iter.creates[urn] || res.Delete''
      else Returns (filter (toDelete it) (rev (prior p))))
   \<and> (\<not> done_flag it \<and> \<not> srcdone it \<and> stepqueue it = [] \<and> fst (src_Next it) = SrcEnd
        \<and> computeDeletes p it = Returns dels \<longrightarrow>
      Nexts p (Suc (length dels)) it =
        Returns (map (\<lambda>d. (Some (DeleteStep d (URN (heap it d) \<in> replaces it)), None)) dels
                   @ [(None, None)],
                 (snd (src_Next it))\<lparr>srcdone := True, delqueue := [],
                    deletes := deletes it \<union> (\<lambda>d. URN (heap it d)) ` set dels,
                    done_flag := True\<rparr>))"
proof (intro conjI impI)
  show "computeDeletes p it =
     (if \<exists>res \<in> set (prior p). URN (heap it res) \<in> creates it \<and> \<not> Delete (heap it res)
      then Panics ''assertion failed: !iter.creates[urn] || res.Delete''
      else Returns (filter (toDelete it) (rev (prior p))))"
    by (rule computeDeletes_eq)
next
  assume a: "\<not> done_flag it \<and> \<not> srcdone it \<and> stepqueue it = [] \<and> fst (src_Next it) = SrcEnd
        \<and> computeDeletes p it = Returns dels"
  let ?it1 = "snd (src_Next it)"
  let ?itd = "?it1\<lparr>srcdone := True, delqueue := dels\<rparr>"
  have f: "heap ?it1 = heap it" "replaces ?it1 = replaces it" "deletes ?it1 = deletes it"
    "stepqueue ?it1 = stepqueue it" "done_flag ?it1 = done_flag it"
    by (auto simp: src_Next_def logCall_def split: list.splits)
  have n: "Next p it = Next p ?itd"
    using a by (intro Next_source_end) simp_all
  have "Nexts p (Suc (length dels)) ?itd =
     Returns (map (\<lambda>d. (Some (DeleteStep d (URN (heap ?itd d) \<in> replaces ?itd)), None)) dels
                @ [(None, None)],
              ?itd\<lparr>delqueue := [],
                 deletes := deletes ?itd \<union> (\<lambda>d. URN (heap ?itd d)) ` set dels,
                 done_flag := True\<rparr>)"
    using a f by (intro Nexts_drain) simp_all
  moreover have "Nexts p (Suc (length dels)) it = Nexts p (Suc (length dels)) ?itd"
    using n by (simp only: Nexts.simps)
  ultimately show "Nexts p (Suc (length dels)) it =
        Returns (map (\<lambda>d. (Some (DeleteStep d (URN (heap it d) \<in> replaces it)), None)) dels
                   @ [(None, None)],
                 (snd (src_Next it))\<lparr>srcdone := True, delqueue := [],
                    deletes := deletes it \<union> (\<lambda>d. URN (heap it d)) ` set dels,
                    done_flag := True\<rparr>)"
    using f by simp
qed

lemma ex_Start: "Start ex_plan = Inr ex_start"
  by (simp add: Start_def ex_plan_def ex_start_def)

theorem computeDeletes_reverse_order_witness:
  "computeDeletes ex_plan ex_start = Returns [2, 1]
   \<and> Nexts ex_plan 3 ex_start =
       Returns ([(Some (DeleteStep 2 False), None), (Some (DeleteStep 1 False), None),
                 (None, None)],
         ex_start\<lparr>trace := [SrcNext SrcEnd], srcdone := True,
           deletes := {''urn:pulumi:t::k::p:m:A::a'', ''urn:pulumi:t::k::p:m:B::b''}, done_flag := True\<rparr>)"
proof -
  have c: "computeDeletes ex_plan ex_start = Returns [2, 1]"
    using computeDeletes_reverse_order [of ex_plan ex_start "[]"]
    by (simp add: prior_def ex_plan_def ex_start_def ex_heap_def NewState_def toDelete_def)
  have "Nexts ex_plan (Suc (length [2::nat, 1])) ex_start =
      Returns ([(Some (DeleteStep 2 False), None), (Some (DeleteStep 1 False), None),
                 (None, None)],
         ex_start\<lparr>trace := [SrcNext SrcEnd], srcdone := True,
           deletes := {''urn:pulumi:t::k::p:m:A::a'', ''urn:pulumi:t::k::p:m:B::b''}, done_flag := True\<rparr>)"
    using computeDeletes_reverse_order [of ex_plan ex_start "[2, 1]"] c
    by (simp add: ex_start_def ex_heap_def NewState_def src_Next_def logCall_def insert_commute)
  then show ?thesis using c by (simp add: numeral_3_eq_3)
qed

text \<open>
  C9. When the pre-step hook returns an error, \<^verbatim>\<open>Apply\<close> returns \<^verbatim>\<open>StatusOK\<close> with an
  error wrapping the hook's error; the step's own \<^verbatim>\<open>Apply\<close> and the post-step hook are
  not called (the log gains the call of the pre hook and nothing else), and the iterator,
  \<open>regs\<close> included, is as it was.
\<close>

theorem Apply_pre_hook_error:
  assumes "opts_Events p = Some ev"
    and "OnResourceStepPre ev step it = (ctx, Some eventerr)"
  shows "Apply p step preview it =
     ((StatusOK, Some (Wrapf eventerr ''pre-step event returned an error'')),
      it\<lparr>trace := trace it @ [StepPre step]\<rparr>)"
  using assms by (simp add: Apply_def logCall_def)

theorem Apply_pre_hook_error_witness:
  "Apply (ex_plan\<lparr>opts_Events := Some (ex_events (Some (Errorf ''pre hook failed'')) None None),
                  step_Apply := ex_failing_apply\<rparr>) ex_step False ex_start =
     ((StatusOK, Some (Wrapf (Errorf ''pre hook failed'') ''pre-step event returned an error'')),
      ex_start\<lparr>trace := [StepPre ex_step]\<rparr>)"
  using Apply_pre_hook_error
    [of "ex_plan\<lparr>opts_Events := Some (ex_events (Some (Errorf ''pre hook failed'')) None None),
                  step_Apply := ex_failing_apply\<rparr>"
        "ex_events (Some (Errorf ''pre hook failed'')) None None" ex_step ex_start "Some 7"
        "Errorf ''pre hook failed''" False]
  by (simp add: ex_events_def ex_start_def)

text \<open>
  C5, amended. When the pre hook returns no error, the step's own \<^verbatim>\<open>Apply\<close> runs; unless
  the step is a logical step that succeeded and whose URN is already pending in \<open>regs\<close>
  (then \<^verbatim>\<open>Apply\<close> returns at once \<^verbatim>\<open>StatusOK\<close> and the error \<open>resource registered twice\<close>,
  without the post hook), the post hook is called after it, whether the step succeeded or
  failed, with the context the pre hook returned, the step's status and the step's error.
  \<^verbatim>\<open>Apply\<close> returns the step's status; its error is the step's error when the post hook
  returns none, and otherwise an error that wraps the post hook's error (the step's error
  is not part of it). When the pre hook returns an error there is no step status:
  \<^verbatim>\<open>Apply\<close> returns \<^verbatim>\<open>StatusOK\<close> and an error that wraps the pre hook's error. With no
  hooks configured \<^verbatim>\<open>Apply\<close> returns what the step's own \<^verbatim>\<open>Apply\<close> returns, but for a
  URN already pending.
\<close>

theorem Apply_post_hook:
  "(opts_Events p = Some ev \<and> OnResourceStepPre ev step it = (ctx, None)
      \<and> step_Apply p step preview (it\<lparr>trace := trace it @ [StepPre step, StepApply step preview]\<rparr>)
          = ((status, err), it2)
      \<and> \<not> (err = None \<and> Logical step \<and> regs it2 (Step_URN (heap it) step) \<noteq> None)
      \<and> it3 = (if err = None \<and> Logical step
               then it2\<lparr>regs := (regs it2)(Step_URN (heap it) step \<mapsto> step)\<rparr> else it2)
    \<longrightarrow> Apply p step preview it =
          ((status,
            (case OnResourceStepPost ev ctx step status err it3 of
               Some eventerr \<Rightarrow> Some (Wrapf eventerr ''post-step event returned an error'')
             | None \<Rightarrow> err)),
           it3\<lparr>trace := trace it3 @ [StepPost ctx step status err]\<rparr>))
   \<and> (opts_Events p = Some ev \<and> OnResourceStepPre ev step it = (ctx, None)
      \<and> step_Apply p step preview (it\<lparr>trace := trace it @ [StepPre step, StepApply step preview]\<rparr>)
          = ((status, None), it2)
      \<and> Logical step \<and> regs it2 (Step_URN (heap it) step) \<noteq> None
    \<longrightarrow> Apply p step preview it =
          ((StatusOK, Some (Errorf ''resource registered twice'')), it2))
   \<and> (opts_Events p = Some ev \<and> OnResourceStepPre ev step it = (ctx, Some eventerr)
    \<longrightarrow> Apply p step preview it =
          ((StatusOK, Some (Wrapf eventerr ''pre-step event returned an error'')),
           it\<lparr>trace := trace it @ [StepPre step]\<rparr>))
   \<and> (opts_Events p = None
      \<and> step_Apply p step preview (it\<lparr>trace := trace it @ [StepApply step preview]\<rparr>)
          = ((status, err), it2)
    \<longrightarrow> Apply p step preview it =
          (if err = None \<and> Logical step \<and> regs it2 (Step_URN (heap it) step) \<noteq> None
           then ((StatusOK, Some (Errorf ''resource registered twice'')), it2)
           else ((status, err),
                 if err = None \<and> Logical step
                 then it2\<lparr>regs := (regs it2)(Step_URN (heap it) step \<mapsto> step)\<rparr> else it2)))"
  by (auto simp: Apply_def logCall_def Let_def split: option.splits)

theorem Apply_post_hook_witness:
  "Apply (ex_plan\<lparr>opts_Events := Some (ex_events None (Some (Errorf ''post hook failed'')) None),
                  step_Apply := ex_failing_apply\<rparr>) ex_step False ex_start =
     ((StatusUnknown,
       Some (Wrapf (Errorf ''post hook failed'') ''post-step event returned an error'')),
      ex_start\<lparr>resources := [1],
        trace := [StepPre ex_step, StepApply ex_step False,
                  StepPost (Some 7) ex_step StatusUnknown (Some (Errorf ''step failed''))]\<rparr>)
   \<and> Apply (ex_plan\<lparr>opts_Events := Some (ex_events None None None)\<rparr>) ex_step False
        (ex_start\<lparr>regs := [''urn:pulumi:t::k::p:m:A::a'' \<mapsto> ex_step]\<rparr>) =
     ((StatusOK, Some (Errorf ''resource registered twice'')),
      ex_start\<lparr>regs := [''urn:pulumi:t::k::p:m:A::a'' \<mapsto> ex_step],
        trace := [StepPre ex_step, StepApply ex_step False]\<rparr>)
   \<and> Apply (ex_plan\<lparr>opts_Events := Some (ex_events (Some (Errorf ''pre hook failed'')) None None),
                  step_Apply := ex_failing_apply\<rparr>) ex_step False ex_start =
     ((StatusOK, Some (Wrapf (Errorf ''pre hook failed'') ''pre-step event returned an error'')),
      ex_start\<lparr>trace := [StepPre ex_step]\<rparr>)
   \<and> Apply (ex_plan\<lparr>step_Apply := ex_failing_apply\<rparr>) ex_step False ex_start =
     ((StatusUnknown, Some (Errorf ''step failed'')),
      ex_start\<lparr>resources := [1], trace := [StepApply ex_step False]\<rparr>)"
proof -
  let ?ev = "ex_events None (Some (Errorf ''post hook failed'')) None"
  let ?p = "ex_plan\<lparr>opts_Events := Some ?ev, step_Apply := ex_failing_apply\<rparr>"
  let ?it2 = "ex_start\<lparr>resources := [1], trace := [StepPre ex_step, StepApply ex_step False]\<rparr>"
  let ?ev' = "ex_events (Some (Errorf ''pre hook failed'')) None None"
  let ?p' = "ex_plan\<lparr>opts_Events := Some ?ev', step_Apply := ex_failing_apply\<rparr>"
  let ?ev2 = "ex_events None None None"
  let ?p2 = "ex_plan\<lparr>opts_Events := Some ?ev2\<rparr>"
  let ?pend = "ex_start\<lparr>regs := [''urn:pulumi:t::k::p:m:A::a'' \<mapsto> ex_step]\<rparr>"
  let ?pend2 = "ex_start\<lparr>regs := [''urn:pulumi:t::k::p:m:A::a'' \<mapsto> ex_step],
        trace := [StepPre ex_step, StepApply ex_step False]\<rparr>"
  let ?p3 = "ex_plan\<lparr>step_Apply := ex_failing_apply\<rparr>"
  let ?it3 = "ex_start\<lparr>resources := [1], trace := [StepApply ex_step False]\<rparr>"
  have a: "Apply ?p ex_step False ex_start =
     ((StatusUnknown,
       Some (Wrapf (Errorf ''post hook failed'') ''post-step event returned an error'')),
      ?it2\<lparr>trace := trace ?it2 @
         [StepPost (Some 7) ex_step StatusUnknown (Some (Errorf ''step failed''))]\<rparr>)"
    using Apply_post_hook [of ?p ?ev ex_step ex_start "Some 7" False StatusUnknown
        "Some (Errorf ''step failed'')" ?it2 ?it2]
    by (simp add: ex_events_def ex_start_def ex_failing_apply_def)
  have b: "Apply ?p' ex_step False ex_start =
     ((StatusOK, Some (Wrapf (Errorf ''pre hook failed'') ''pre-step event returned an error'')),
      ex_start\<lparr>trace := trace ex_start @ [StepPre ex_step]\<rparr>)"
    using Apply_post_hook [of ?p' ?ev' ex_step ex_start "Some 7" False _ _ _ _
        "Errorf ''pre hook failed''"]
    by (simp add: ex_events_def)
  have u: "Step_URN (heap ?pend) ex_step = ''urn:pulumi:t::k::p:m:A::a''" "Logical ex_step"
    by (simp_all add: Step_URN_def ex_step_def ex_start_def ex_heap_def NewState_def)
  have c: "Apply ?p2 ex_step False ?pend =
     ((StatusOK, Some (Errorf ''resource registered twice'')), ?pend2)"
    using Apply_post_hook [of ?p2 ?ev2 ex_step ?pend "Some 7" False StatusOK None ?pend2] u
    by (simp add: ex_events_def ex_start_def ex_plan_def)
  have d: "Apply ?p3 ex_step False ex_start = ((StatusUnknown, Some (Errorf ''step failed'')), ?it3)"
    using Apply_post_hook [of ?p3 _ ex_step ex_start _ False StatusUnknown
        "Some (Errorf ''step failed'')" ?it3]
    by (simp add: ex_plan_def ex_start_def ex_failing_apply_def)
  show ?thesis
    using a b c d by (simp add: ex_start_def)
qed

text \<open>
  C5 as stated fails twice. A step that fails with \<open>step failed\<close> under a post hook that
  fails: the error \<^verbatim>\<open>Apply\<close> returns wraps the hook's error and not the step's. A logical
  step that succeeds while its URN is already pending: the step's \<^verbatim>\<open>Apply\<close> has run, and
  \<^verbatim>\<open>Apply\<close> returns without calling the post hook.
\<close>

theorem Apply_post_hook_counterexample:
  "Apply (ex_plan\<lparr>opts_Events := Some (ex_events None (Some (Errorf ''post hook failed'')) None),
                  step_Apply := ex_failing_apply\<rparr>) ex_step False ex_start =
     ((StatusUnknown,
       Some (Wrapf (Errorf ''post hook failed'') ''post-step event returned an error'')),
      ex_start\<lparr>resources := [1],
        trace := [StepPre ex_step, StepApply ex_step False,
                  StepPost (Some 7) ex_step StatusUnknown (Some (Errorf ''step failed''))]\<rparr>)
   \<and> \<not> wraps (Wrapf (Errorf ''post hook failed'') ''post-step event returned an error'')
             (Errorf ''step failed'')
   \<and> Apply (ex_plan\<lparr>opts_Events := Some (ex_events None None None)\<rparr>) ex_step False
        (ex_start\<lparr>regs := [''urn:pulumi:t::k::p:m:A::a'' \<mapsto> ex_step]\<rparr>) =
     ((StatusOK, Some (Errorf ''resource registered twice'')),
      ex_start\<lparr>regs := [''urn:pulumi:t::k::p:m:A::a'' \<mapsto> ex_step],
        trace := [StepPre ex_step, StepApply ex_step False]\<rparr>)"
  by (simp add: Apply_def logCall_def ex_plan_def ex_events_def ex_start_def Let_def
      ex_failing_apply_def ex_step_def Step_URN_def ex_heap_def NewState_def)

lemma AddOutputs_lookup:
  "Outputs (AddOutputs m s) =
     Some (\<lambda>k. case m k of
                  Some v \<Rightarrow> Some v
                | None \<Rightarrow> (case Outputs s of None \<Rightarrow> None | Some outs \<Rightarrow> outs k))"
  by (auto simp: AddOutputs_def map_add_def split: option.splits)

text \<open>
  C6, amended. For an output completion whose URN is pending in \<open>regs\<close> (with a step that
  has a new state), \<^verbatim>\<open>registerResourceOutputs\<close> removes the URN from \<open>regs\<close> and merges
  the event's outputs into the new state of the pending step, a key of the event overriding
  the same key of the state and the other keys kept; then it calls the
  \<^verbatim>\<open>OnResourceOutputs\<close> hook, if there is one, on the iterator so updated; when there is no
  hook or the hook returns no error it calls the event's \<^verbatim>\<open>Done\<close> last and returns no
  error; when the hook returns an error it returns that error wrapped and does not call
  \<^verbatim>\<open>Done\<close>. A URN that is not pending is a failed assertion (a panic), not an error
  return.
\<close>

theorem registerResourceOutputs_contract:
  "(regs it urn = Some reg \<and> Step_New reg = Some new
      \<and> e = RegisterResourceOutputsEvent urn outs
      \<and> it2 = it\<lparr>regs := (regs it)(urn := None),
                 heap := (heap it)(new := (case outs of
                                             None \<Rightarrow> heap it new
                                           | Some m \<Rightarrow> AddOutputs m (heap it new)))\<rparr>
    \<longrightarrow> registerResourceOutputs p e it =
          (case opts_Events p of
             None \<Rightarrow> Returns (None, it2\<lparr>trace := trace it @ [EventDone e]\<rparr>)
           | Some ev \<Rightarrow>
               (case OnResourceOutputs ev reg it2 of
                  None \<Rightarrow>
                    Returns (None, it2\<lparr>trace := trace it @ [ResourceOutputs reg, EventDone e]\<rparr>)
                | Some eventerr \<Rightarrow>
                    Returns (Some (Wrapf eventerr ''resource complete event returned an error''),
                             it2\<lparr>trace := trace it @ [ResourceOutputs reg]\<rparr>)))
        \<and> (\<forall>m k. outs = Some m \<longrightarrow>
              (case Outputs (heap it2 new) of None \<Rightarrow> None | Some os \<Rightarrow> os k) =
              (case m k of
                 Some v \<Rightarrow> Some v
               | None \<Rightarrow> (case Outputs (heap it new) of None \<Rightarrow> None | Some os \<Rightarrow> os k))))
   \<and> (regs it urn = None \<longrightarrow>
        registerResourceOutputs p (RegisterResourceOutputsEvent urn outs) it =
          Panics ''cannot complete a resource whose registration isn't pending'')"
  by (auto simp: registerResourceOutputs_def logCall_def Let_def AddOutputs_lookup
      split: option.splits)

theorem registerResourceOutputs_contract_witness:
  "(case registerResourceOutputs (ex_plan\<lparr>opts_Events := Some (ex_events None None None)\<rparr>)
           ex_outputs ex_pending of
      Returns (None, it') \<Rightarrow>
        regs it' ''urn:pulumi:t::k::p:m:A::a'' = None
        \<and> trace it' = [ResourceOutputs ex_step, EventDone ex_outputs]
        \<and> (case Outputs (heap it' 1) of None \<Rightarrow> None | Some os \<Rightarrow> os ''b'')
            = Some (PNumber 3)
        \<and> (case Outputs (heap it' 1) of None \<Rightarrow> None | Some os \<Rightarrow> os ''a'')
            = Some (PNumber 1)
    | _ \<Rightarrow> False)
   \<and> registerResourceOutputs ex_plan ex_outputs ex_start =
       Panics ''cannot complete a resource whose registration isn't pending''"
proof -
  let ?p = "ex_plan\<lparr>opts_Events := Some (ex_events None None None)\<rparr>"
  let ?m = "[''b'' \<mapsto> PNumber 3]"
  let ?it2 = "ex_pending\<lparr>regs := (regs ex_pending)(''urn:pulumi:t::k::p:m:A::a'' := None),
                heap := (heap ex_pending)(1 := (case Some ?m of
                                             None \<Rightarrow> heap ex_pending 1
                                           | Some m \<Rightarrow> AddOutputs m (heap ex_pending 1)))\<rparr>"
  have h: "regs ex_pending ''urn:pulumi:t::k::p:m:A::a'' = Some ex_step \<and> Step_New ex_step = Some 1
      \<and> ex_outputs = RegisterResourceOutputsEvent ''urn:pulumi:t::k::p:m:A::a'' (Some ?m) \<and> ?it2 = ?it2"
    by (simp add: ex_pending_def ex_step_def ex_outputs_def)
  have a: "registerResourceOutputs ?p ex_outputs ex_pending =
      Returns (None, ?it2\<lparr>trace := trace ex_pending @ [ResourceOutputs ex_step, EventDone ex_outputs]\<rparr>)"
    and b: "\<forall>k. (case Outputs (heap ?it2 1) of None \<Rightarrow> None | Some os \<Rightarrow> os k) =
              (case ?m k of
                 Some v \<Rightarrow> Some v
               | None \<Rightarrow> (case Outputs (heap ex_pending 1) of None \<Rightarrow> None | Some os \<Rightarrow> os k))"
    using registerResourceOutputs_contract
      [of ex_pending "''urn:pulumi:t::k::p:m:A::a''" ex_step 1 ex_outputs "Some ?m" ?it2 ?p] h
    by (simp_all add: ex_events_def)
  have c: "registerResourceOutputs ex_plan ex_outputs ex_start =
       Panics ''cannot complete a resource whose registration isn't pending''"
    using registerResourceOutputs_contract
      [of ex_start "''urn:pulumi:t::k::p:m:A::a''" _ _ _ "Some ?m" _ ex_plan]
    by (simp add: ex_start_def ex_outputs_def)
  have t: "trace ex_pending = []"
    by (simp add: ex_pending_def ex_start_def)
  have o: "Outputs (heap ex_pending 1) = Some [''a'' \<mapsto> PNumber 1, ''b'' \<mapsto> PNumber 2]"
    by (simp add: ex_pending_def)
  show ?thesis
    using b [rule_format, of "''a''"] b [rule_format, of "''b''"] o
    by (simp add: a c t)
qed

text \<open>
  C6 as stated fails when the hook returns an error: the outputs are merged and the URN
  has left \<open>regs\<close>, but the event's \<^verbatim>\<open>Done\<close> is never called.
\<close>

theorem registerResourceOutputs_contract_counterexample:
  "(case registerResourceOutputs
           (ex_plan\<lparr>opts_Events := Some (ex_events None None (Some (Errorf ''hook failed'')))\<rparr>)
           ex_outputs ex_pending of
      Returns (Some err, it') \<Rightarrow>
        err = Wrapf (Errorf ''hook failed'') ''resource complete event returned an error''
        \<and> regs it' ''urn:pulumi:t::k::p:m:A::a'' = None
        \<and> trace it' = [ResourceOutputs ex_step]
        \<and> EventDone ex_outputs \<notin> set (trace it')
    | _ \<Rightarrow> False)"
  by (simp add: registerResourceOutputs_def logCall_def Let_def ex_events_def ex_pending_def
      ex_outputs_def ex_step_def ex_start_def)








lemma sourced_append: "sourced (xs @ ys) = sourced xs @ sourced ys"
  by (induction xs rule: sourced.induct) simp_all

lemma analyzed_append: "analyzed (xs @ ys) = analyzed xs @ analyzed ys"
  by (induction xs rule: analyzed.induct) simp_all

lemma sourced_diags: "sourced (map (\<lambda>x. DiagErrorf (d x) (u x)) xs) = []"
  by (induction xs) simp_all

lemma analyzed_diags: "analyzed (map (\<lambda>x. DiagErrorf (d x) (u x)) xs) = []"
  by (induction xs) simp_all

lemma analyzed_calls: "analyzed (map (\<lambda>a. AnalyzerAnalyze a t i) as) = as"
  by (induction as) simp_all

lemma sourced_calls: "sourced (map (\<lambda>a. AnalyzerAnalyze a t i) as) = []"
  by (induction as) simp_all

lemma runAnalyzers_frame:
  "runAnalyzers p as new urn inputs bad it = (r, it') \<Longrightarrow>
     it' = it\<lparr>trace := trace it'\<rparr> \<and> sourced (trace it') = sourced (trace it)"
proof (induction as arbitrary: it bad)
  case Nil
  then show ?case by auto
next
  case (Cons a as)
  show ?case
  proof (cases "host_Analyzer p a")
    case (Inl err)
    then show ?thesis using Cons.prems by auto
  next
    case (Inr oa)
    show ?thesis
    proof (cases oa)
      case None
      then show ?thesis using Cons.prems Inr by auto
    next
      case (Some an)
      show ?thesis
      proof (cases "Analyze an (Type (heap it new)) inputs")
        case (Inl err)
        then show ?thesis
          using Cons.prems Inr Some by (auto simp: logCall_def sourced_append)
      next
        case (Inr fs)
        let ?it1 = "(logCall (AnalyzerAnalyze a (Type (heap it new)) inputs) it)
          \<lparr>trace := trace (logCall (AnalyzerAnalyze a (Type (heap it new)) inputs) it) @
             map (\<lambda>failure. DiagErrorf ErrorAnalyzeResourceFailure urn) fs\<rparr>"
        have "runAnalyzers p as new urn inputs (bad \<or> fs \<noteq> []) ?it1 = (r, it')"
          using Cons.prems \<open>host_Analyzer p a = Inr oa\<close> Some Inr by (simp add: Let_def)
        from Cons.IH [OF this]
        have "it' = ?it1\<lparr>trace := trace it'\<rparr>" "sourced (trace it') = sourced (trace ?it1)"
          by simp_all
        then show ?thesis
          by (simp add: logCall_def sourced_append sourced_diags)
      qed
    qed
  qed
qed


lemma NewState_sel [simp]:
  "Type (NewState t u c d i inp outs par) = t"
  "URN (NewState t u c d i inp outs par) = u"
  "Custom (NewState t u c d i inp outs par) = c"
  "Delete (NewState t u c d i inp outs par) = d"
  "ID (NewState t u c d i inp outs par) = i"
  "Inputs (NewState t u c d i inp outs par) = inp"
  "Outputs (NewState t u c d i inp outs par) = outs"
  "Parent (NewState t u c d i inp outs par) = par"
  "(NewState t u c d i inp outs par)\<lparr>Inputs := inp'\<rparr> = NewState t u c d i inp' outs par"
  by (simp_all add: NewState_def)

lemma runAnalyzers_invalid:
  "runAnalyzers p as new urn inputs True it = (r, it') \<Longrightarrow> r \<noteq> Inr False"
proof (induction as arbitrary: it)
  case Nil
  then show ?case by auto
next
  case (Cons a as)
  then show ?case
    by (auto simp: Let_def split: sum.splits option.splits)
qed

lemma runAnalyzers_answers:
  "\<forall>a \<in> set as. \<exists>an fs. host_Analyzer p a = Inr (Some an)
       \<and> Analyze an (Type (heap it new)) inputs = Inr fs \<Longrightarrow>
   \<exists>b it'. runAnalyzers p as new urn inputs bad it = (Inr b, it') \<and> (bad \<longrightarrow> b)
     \<and> analyzed (trace it') = analyzed (trace it) @ as"
proof (induction as arbitrary: it bad)
  case Nil
  then show ?case by simp
next
  case (Cons a as)
  from Cons.prems obtain an fs where a: "host_Analyzer p a = Inr (Some an)"
    "Analyze an (Type (heap it new)) inputs = Inr fs"
    by auto
  let ?it1 = "(logCall (AnalyzerAnalyze a (Type (heap it new)) inputs) it)
          \<lparr>trace := trace (logCall (AnalyzerAnalyze a (Type (heap it new)) inputs) it) @
             map (\<lambda>failure. DiagErrorf ErrorAnalyzeResourceFailure urn) fs\<rparr>"
  have h: "heap ?it1 = heap it" by (simp add: logCall_def)
  have "\<forall>a \<in> set as. \<exists>an fs. host_Analyzer p a = Inr (Some an)
       \<and> Analyze an (Type (heap ?it1 new)) inputs = Inr fs"
    using Cons.prems by (simp add: h)
  from Cons.IH [OF this, of "bad \<or> fs \<noteq> []"]
  obtain b it' where r: "runAnalyzers p as new urn inputs (bad \<or> fs \<noteq> []) ?it1 = (Inr b, it')"
    "bad \<or> fs \<noteq> [] \<longrightarrow> b" "analyzed (trace it') = analyzed (trace ?it1) @ as"
    by blast
  have "runAnalyzers p (a # as) new urn inputs bad it = (Inr b, it')"
    using a r(1) by (simp add: Let_def)
  moreover have "analyzed (trace it') = analyzed (trace it) @ a # as"
    using r(3) by (simp add: logCall_def analyzed_append analyzed_diags)
  ultimately show ?case
    using r(2) by blast
qed

lemma runAnalyzers_pass:
  "\<forall>a \<in> set as. \<exists>an. host_Analyzer p a = Inr (Some an)
       \<and> Analyze an (Type (heap it new)) inputs = Inr [] \<Longrightarrow>
   runAnalyzers p as new urn inputs bad it =
     (Inr bad, it\<lparr>trace := trace it @
        map (\<lambda>a. AnalyzerAnalyze a (Type (heap it new)) inputs) as\<rparr>)"
proof (induction as arbitrary: it)
  case Nil
  then show ?case by simp
next
  case (Cons a as)
  from Cons.prems obtain an where a: "host_Analyzer p a = Inr (Some an)"
    "Analyze an (Type (heap it new)) inputs = Inr []"
    by auto
  let ?it1 = "it\<lparr>trace := trace it @ [AnalyzerAnalyze a (Type (heap it new)) inputs]\<rparr>"
  have "runAnalyzers p as new urn inputs bad ?it1 =
     (Inr bad, ?it1\<lparr>trace := trace ?it1 @
        map (\<lambda>a. AnalyzerAnalyze a (Type (heap ?it1 new)) inputs) as\<rparr>)"
    using Cons.prems by (intro Cons.IH) simp
  then show ?case
    using a by (simp add: Let_def logCall_def)
qed

lemma makeRegisterResouceSteps_validated:
  assumes fresh: "goalURN p e \<notin> urns it"
    and prov: "goalProvider p (Goal e) = Inr prov"
    and alloc: "\<forall>old. Olds p (goalURN p e) = Some old \<longrightarrow> old \<noteq> next_ref it"
    and olds: "olds = (case Olds p (goalURN p e) of
                         Some old \<Rightarrow> Inputs (heap it old) | None \<Rightarrow> None)"
    and check: "checked prov (goalURN p e) olds (GProperties (Goal e)) = Inr (inputs, [])"
    and an: "\<forall>a \<in> set (analyzers p). \<exists>an. host_Analyzer p a = Inr (Some an)
               \<and> Analyze an (GType (Goal e)) inputs = Inr []"
  shows "makeRegisterResouceSteps p e it =
     decideSteps p e (goalURN p e) (next_ref it) prov olds (GProperties (Goal e)) inputs
       (validated p e prov olds inputs it)"
proof -
  let ?urn = "goalURN p e" and ?new = "next_ref it" and ?res = "Goal e"
  let ?st = "NewState (GType ?res) ?urn (GCustom ?res) False [] (GProperties ?res) None
               (GParent ?res)"
  let ?it2 = "it\<lparr>urns := insert ?urn (urns it), heap := (heap it)(?new := ?st),
                 next_ref := Suc ?new\<rparr>"
  let ?it3 = "?it2\<lparr>heap := (heap it)(?new := ?st\<lparr>Inputs := inputs\<rparr>),
                 trace := trace it @ (case prov of None \<Rightarrow> []
                                      | Some pr \<Rightarrow> [ProviderCheck ?urn olds (GProperties ?res)])\<rparr>"
  have c: "checkInputs prov ?new ?urn olds (GProperties ?res) ?it2 = (Inr (inputs, False), ?it3)"
  proof (cases prov)
    case None
    then have "inputs = GProperties ?res"
      using check by (simp add: checked_def)
    then show ?thesis
      using None by (simp add: checkInputs_def)
  next
    case (Some pr)
    then show ?thesis
      using check
      by (simp add: checkInputs_def checked_def issueCheckErrors_def logCall_def Let_def)
  qed
  have t: "Type (heap ?it3 ?new) = GType ?res"
    by simp
  have a: "runAnalyzers p (analyzers p) ?new ?urn inputs False ?it3 =
      (Inr False, validated p e prov olds inputs it)"
    using an runAnalyzers_pass [of "analyzers p" p ?it3 ?new inputs ?urn False]
    unfolding t by (simp add: validated_def)
  show ?thesis
  proof (cases "Olds p ?urn")
    case None
    then show ?thesis
      using fresh prov olds c a
      by (simp add: makeRegisterResouceSteps_def Let_def del: runAnalyzers.simps)
  next
    case (Some old)
    then have "old \<noteq> next_ref it"
      using alloc by simp
    then show ?thesis
      using Some fresh prov olds c a
      by (simp add: makeRegisterResouceSteps_def Let_def del: runAnalyzers.simps)
  qed
qed





lemma makeRegisterResouceSteps_check_failed:
  assumes prov: "goalProvider p (Goal e) = Inr (Some pr)"
    and alloc: "\<forall>old. Olds p (goalURN p e) = Some old \<longrightarrow> old \<noteq> next_ref it"
    and olds: "olds = (case Olds p (goalURN p e) of
                         Some old \<Rightarrow> Inputs (heap it old) | None \<Rightarrow> None)"
    and check: "Check pr (goalURN p e) olds (GProperties (Goal e)) = Inr (inputs, failures)"
    and failed: "failures \<noteq> []"
  shows "\<exists>r it3 it4. runAnalyzers p (analyzers p) (next_ref it) (goalURN p e) inputs True it3
        = (r, it4)
      \<and> Type (heap it3 (next_ref it)) = GType (Goal e)
      \<and> analyzed (trace it3) = analyzed (trace it)
      \<and> creates it3 = creates it \<and> updates it3 = updates it \<and> sames it3 = sames it
      \<and> replaces it3 = replaces it
      \<and> makeRegisterResouceSteps p e it =
          Returns (Inl (case r of Inl err \<Rightarrow> err | Inr b \<Rightarrow> validationError), it4)"
proof -
  let ?urn = "goalURN p e" and ?new = "next_ref it" and ?res = "Goal e"
  let ?st = "NewState (GType ?res) ?urn (GCustom ?res) False [] (GProperties ?res) None
               (GParent ?res)"
  let ?dup = "if ?urn \<in> urns it then [DiagErrorf ErrorDuplicateResourceURN ?urn] else []"
  let ?it3 = "it\<lparr>urns := insert ?urn (urns it),
                 next_ref := Suc ?new,
                 trace := trace it @ ?dup @ [ProviderCheck ?urn olds (GProperties ?res)] @
                   map (\<lambda>failure.
                     if Property failure \<noteq> [] then DiagErrorf ErrorResourcePropertyInvalidValue ?urn
                     else DiagErrorf ErrorResourceInvalid ?urn) failures,
                 heap := (heap it)(?new := ?st\<lparr>Inputs := inputs\<rparr>)\<rparr>"
  have d: "analyzed (map (\<lambda>failure.
                     if Property failure \<noteq> [] then DiagErrorf ErrorResourcePropertyInvalidValue ?urn
                     else DiagErrorf ErrorResourceInvalid ?urn) failures) = []"
    by (induction failures) simp_all
  have a: "analyzed (trace ?it3) = analyzed (trace it)"
    by (simp add: analyzed_append d)
  obtain r it4 where ra:
    "runAnalyzers p (analyzers p) ?new ?urn inputs True ?it3 = (r, it4)"
    by (cases "runAnalyzers p (analyzers p) ?new ?urn inputs True ?it3")
  have nf: "r \<noteq> Inr False"
    using runAnalyzers_invalid [OF ra] .
  have m: "makeRegisterResouceSteps p e it =
          Returns (Inl (case r of Inl err \<Rightarrow> err | Inr b \<Rightarrow> validationError), it4)"
  proof (cases "Olds p ?urn")
    case None
    show ?thesis
    proof (cases r)
      case (Inl err)
      then show ?thesis
        using None prov olds check failed ra
        by (cases "?urn \<in> urns it")
          (simp_all add: makeRegisterResouceSteps_def checkInputs_def issueCheckErrors_def
            Let_def logCall_def del: runAnalyzers.simps)
    next
      case (Inr b)
      then show ?thesis
        using None prov olds check failed ra nf
        by (cases "?urn \<in> urns it")
          (simp_all add: makeRegisterResouceSteps_def checkInputs_def issueCheckErrors_def
            Let_def logCall_def del: runAnalyzers.simps)
    qed
  next
    case (Some old)
    then have "old \<noteq> next_ref it"
      using alloc by simp
    then show ?thesis
    proof (cases r)
      case (Inl err)
      then show ?thesis
        using Some \<open>old \<noteq> next_ref it\<close> prov olds check failed ra
        by (cases "?urn \<in> urns it")
          (simp_all add: makeRegisterResouceSteps_def checkInputs_def issueCheckErrors_def
            Let_def logCall_def del: runAnalyzers.simps)
    next
      case (Inr b)
      then show ?thesis
        using Some \<open>old \<noteq> next_ref it\<close> prov olds check failed ra nf
        by (cases "?urn \<in> urns it")
          (simp_all add: makeRegisterResouceSteps_def checkInputs_def issueCheckErrors_def
            Let_def logCall_def del: runAnalyzers.simps)
    qed
  qed
  show ?thesis
    using ra m a by (intro exI [of _ r] exI [of _ ?it3] exI [of _ it4]) simp
qed


text \<open>
  C4. For a custom resource whose provider is found. When the first check (called with the
  old inputs) returns failures, \<^verbatim>\<open>makeRegisterResouceSteps\<close> always ends in an error and
  classifies nothing, but not at once: the analyzers are run first, and when they all load
  and answer, each of them has been asked and the error is the validation error. When a
  registration has passed validation, its inputs differ from the old ones and the
  provider's diff replaces, the check is run again with no old inputs (nil) on the event's
  own properties, right after the diff; a failure of this second check ends the function
  at once with the validation error (the URN is already in \<open>replaces\<close>, and nothing but the
  failure diagnostics follows the second check in the log).
\<close>

theorem check_failures_fatal_in_pass2_only:
  assumes "urn = goalURN p e" and "new = next_ref it" and "news = GProperties (Goal e)"
    and "olds = (case Olds p urn of Some old \<Rightarrow> Inputs (heap it old) | None \<Rightarrow> None)"
    and "\<forall>old. Olds p urn = Some old \<longrightarrow> old < new"
    and "goalProvider p (Goal e) = Inr (Some pr)"
  shows
    "(\<forall>inputs failures. Check pr urn olds news = Inr (inputs, failures) \<and> failures \<noteq> [] \<longrightarrow>
        (\<exists>err it'. makeRegisterResouceSteps p e it = Returns (Inl err, it')
           \<and> creates it' = creates it \<and> updates it' = updates it \<and> sames it' = sames it
           \<and> replaces it' = replaces it)
        \<and> ((\<forall>a \<in> set (analyzers p). \<exists>an fs. host_Analyzer p a = Inr (Some an)
                \<and> Analyze an (GType (Goal e)) inputs = Inr fs) \<longrightarrow>
            (\<exists>it'. makeRegisterResouceSteps p e it = Returns (Inl validationError, it')
               \<and> analyzed (trace it') = analyzed (trace it) @ analyzers p)))
     \<and> (\<forall>inputs old diff inputs2 failures2.
          urn \<notin> urns it \<and> Check pr urn olds news = Inr (inputs, [])
          \<and> (\<forall>a \<in> set (analyzers p). \<exists>an. host_Analyzer p a = Inr (Some an)
                \<and> Analyze an (GType (Goal e)) inputs = Inr [])
          \<and> Olds p urn = Some old \<and> Type (heap it old) = GType (Goal e)
          \<and> \<not> DeepEquals p olds inputs
          \<and> Diff pr urn (ID (heap it old)) olds inputs = Inr diff \<and> Replace diff
          \<and> Check pr urn None news = Inr (inputs2, failures2) \<and> failures2 \<noteq> [] \<longrightarrow>
          (\<exists>it'. makeRegisterResouceSteps p e it = Returns (Inl validationError, it')
             \<and> replaces it' = insert urn (replaces it) \<and> creates it' = creates it \<and> updates it' = updates it
             \<and> sames it' = sames it
             \<and> trace it' = trace (validated p e (Some pr) olds inputs it)
                 @ [ProviderDiff urn (ID (heap it old)) olds inputs, ProviderCheck urn None news]
                 @ map (\<lambda>failure.
                     if Property failure \<noteq> [] then DiagErrorf ErrorResourcePropertyInvalidValue urn
                     else DiagErrorf ErrorResourceInvalid urn) failures2))"
proof (intro conjI allI impI)
  fix inputs failures
  assume c: "Check pr urn olds news = Inr (inputs, failures) \<and> failures \<noteq> []"
  have alloc: "\<forall>old. Olds p (goalURN p e) = Some old \<longrightarrow> old \<noteq> next_ref it"
    using assms(1,2,5) by auto
  from makeRegisterResouceSteps_check_failed [of p e pr it olds inputs failures]
  obtain r it3 it4 where
    ra: "runAnalyzers p (analyzers p) new urn inputs True it3 = (r, it4)"
    and t: "Type (heap it3 new) = GType (Goal e)"
    and a: "analyzed (trace it3) = analyzed (trace it)"
    and k: "creates it3 = creates it" "updates it3 = updates it" "sames it3 = sames it"
      "replaces it3 = replaces it"
    and m: "makeRegisterResouceSteps p e it =
          Returns (Inl (case r of Inl err \<Rightarrow> err | Inr b \<Rightarrow> validationError), it4)"
    using assms alloc c by auto
  have f: "it4 = it3\<lparr>trace := trace it4\<rparr>"
    using runAnalyzers_frame [OF ra] by simp
  have k4: "creates it4 = creates it" "updates it4 = updates it" "sames it4 = sames it"
    "replaces it4 = replaces it"
    using k by (subst f, simp)+
  show "\<exists>err it'. makeRegisterResouceSteps p e it = Returns (Inl err, it')
           \<and> creates it' = creates it \<and> updates it' = updates it \<and> sames it' = sames it
           \<and> replaces it' = replaces it"
    using m k4 by blast
  assume an: "\<forall>a \<in> set (analyzers p). \<exists>an fs. host_Analyzer p a = Inr (Some an)
                \<and> Analyze an (GType (Goal e)) inputs = Inr fs"
  from runAnalyzers_answers [of "analyzers p" p it3 new inputs urn True]
  obtain b it' where "runAnalyzers p (analyzers p) new urn inputs True it3 = (Inr b, it')"
    "analyzed (trace it') = analyzed (trace it3) @ analyzers p"
    using an t by auto
  then have "r = Inr b" "analyzed (trace it4) = analyzed (trace it) @ analyzers p"
    using ra a by simp_all
  then show "\<exists>it'. makeRegisterResouceSteps p e it = Returns (Inl validationError, it')
               \<and> analyzed (trace it') = analyzed (trace it) @ analyzers p"
    using m by simp
next
  fix inputs old diff inputs2 failures2
  assume h: "urn \<notin> urns it \<and> Check pr urn olds news = Inr (inputs, [])
          \<and> (\<forall>a \<in> set (analyzers p). \<exists>an. host_Analyzer p a = Inr (Some an)
                \<and> Analyze an (GType (Goal e)) inputs = Inr [])
          \<and> Olds p urn = Some old \<and> Type (heap it old) = GType (Goal e)
          \<and> \<not> DeepEquals p olds inputs
          \<and> Diff pr urn (ID (heap it old)) olds inputs = Inr diff \<and> Replace diff
          \<and> Check pr urn None news = Inr (inputs2, failures2) \<and> failures2 \<noteq> []"
  let ?it1 = "validated p e (Some pr) olds inputs it"
  from h have fresh: "goalURN p e \<notin> urns it"
    and c1: "checked (Some pr) (goalURN p e) olds (GProperties (Goal e)) = Inr (inputs, [])"
    and an: "\<forall>a \<in> set (analyzers p). \<exists>an. host_Analyzer p a = Inr (Some an)
                \<and> Analyze an (GType (Goal e)) inputs = Inr []"
    using assms(1,3) by (simp_all add: checked_def)
  have alloc: "\<forall>old. Olds p (goalURN p e) = Some old \<longrightarrow> old \<noteq> next_ref it"
    using assms(1,2,5) by auto
  have ol: "olds = (case Olds p (goalURN p e) of
                         Some old \<Rightarrow> Inputs (heap it old) | None \<Rightarrow> None)"
    using assms(1,4) by simp
  have pv: "goalProvider p (Goal e) = Inr (Some pr)"
    using assms(6) .
  have m: "makeRegisterResouceSteps p e it =
      decideSteps p e urn new (Some pr) olds news inputs ?it1"
    unfolding assms(1,2,3)
    by (rule makeRegisterResouceSteps_validated [OF fresh pv alloc ol c1 an])
  have o: "old \<noteq> new"
    using h assms(5) by auto
  have v: "heap ?it1 = (heap it)(new := NewState (GType (Goal e)) urn (GCustom (Goal e))
                            False [] inputs None (GParent (Goal e)))"
    "creates ?it1 = creates it" "sames ?it1 = sames it" "updates ?it1 = updates it"
    "replaces ?it1 = replaces it"
    using assms(1,2) by (simp_all add: validated_def)
  show "\<exists>it'. makeRegisterResouceSteps p e it = Returns (Inl validationError, it')
             \<and> replaces it' = insert urn (replaces it) \<and> creates it' = creates it \<and> updates it' = updates it
             \<and> sames it' = sames it
             \<and> trace it' = trace (validated p e (Some pr) olds inputs it)
                 @ [ProviderDiff urn (ID (heap it old)) olds inputs, ProviderCheck urn None news]
                 @ map (\<lambda>failure.
                     if Property failure \<noteq> [] then DiagErrorf ErrorResourcePropertyInvalidValue urn
                     else DiagErrorf ErrorResourceInvalid urn) failures2"
    using h o
    by (simp add: m decideSteps_def v logCall_def Let_def issueCheckErrors_def)
qed


theorem check_failures_fatal_in_pass2_only_witness:
  "(case makeRegisterResouceSteps ex_strict_plan (ex_register ''c'' 1) ex_start of
      Returns (Inl err, it') \<Rightarrow>
        err = validationError \<and> analyzed (trace it') = [''policy''] \<and> creates it' = {}
    | _ \<Rightarrow> False)
   \<and> (case makeRegisterResouceSteps ex_strict_plan (ex_register ''a'' 2) ex_start of
      Returns (Inl err, it') \<Rightarrow>
        err = validationError \<and> replaces it' = {''urn:pulumi:t::k::p:m:A::a''}
        \<and> trace it' =
            [ProviderCheck ''urn:pulumi:t::k::p:m:A::a'' (Some [''k'' \<mapsto> PNumber 1])
               (Some [''k'' \<mapsto> PNumber 2]),
             AnalyzerAnalyze ''policy'' ''p:m:A'' (Some [''k'' \<mapsto> PNumber 2]),
             ProviderDiff ''urn:pulumi:t::k::p:m:A::a'' ''id1'' (Some [''k'' \<mapsto> PNumber 1])
               (Some [''k'' \<mapsto> PNumber 2]),
             ProviderCheck ''urn:pulumi:t::k::p:m:A::a'' None (Some [''k'' \<mapsto> PNumber 2]),
             DiagErrorf ErrorResourcePropertyInvalidValue ''urn:pulumi:t::k::p:m:A::a'']
    | _ \<Rightarrow> False)"
proof -
  let ?A = "''urn:pulumi:t::k::p:m:A::a''"
  let ?C = "''urn:pulumi:t::k::p:m:A::c''"
  let ?one = "Some [''k'' \<mapsto> PNumber 1]"
  let ?two = "Some [''k'' \<mapsto> PNumber 2]"
  let ?p = ex_strict_plan
  have u: "?C = goalURN ?p (ex_register ''c'' 1)" "?A = goalURN ?p (ex_register ''a'' 2)"
    by (simp_all add: goalURN_def NewURN_def ex_plan_def ex_register_def ex_strict_plan_def)
  have n: "3 = next_ref ex_start"
    by (simp add: ex_start_def)
  have r: "?one = GProperties (Goal (ex_register ''c'' 1))"
    "?two = GProperties (Goal (ex_register ''a'' 2))"
    by (simp_all add: ex_register_def)
  have o: "None = (case Olds ?p ?C of Some old \<Rightarrow> Inputs (heap ex_start old) | None \<Rightarrow> None)"
    "?one = (case Olds ?p ?A of Some old \<Rightarrow> Inputs (heap ex_start old) | None \<Rightarrow> None)"
    by (simp_all add: ex_strict_plan_def ex_plan_def ex_start_def ex_heap_def)
  have l: "\<forall>old. Olds ?p ?C = Some old \<longrightarrow> old < 3"
    "\<forall>old. Olds ?p ?A = Some old \<longrightarrow> old < 3"
    by (simp_all add: ex_strict_plan_def ex_plan_def)
  have g: "goalProvider ?p (Goal (ex_register name v)) = Inr (Some ex_strict_provider)" for name v
    by (simp add: goalProvider_def Provider_def ex_plan_def ex_register_def ex_strict_plan_def)
  have an: "\<forall>a \<in> set (analyzers ?p). \<exists>an fs. host_Analyzer ?p a = Inr (Some an)
                \<and> Analyze an (GType (Goal (ex_register ''c'' 1))) ?one = Inr fs"
    "\<forall>a \<in> set (analyzers ?p). \<exists>an. host_Analyzer ?p a = Inr (Some an)
                \<and> Analyze an (GType (Goal (ex_register ''a'' 2))) ?two = Inr []"
    by (simp_all add: ex_strict_plan_def)
  have s: "urns ex_start = {}" "creates ex_start = {}" "replaces ex_start = {}"
    "trace ex_start = []" "Type (heap ex_start 1) = ''p:m:A''" "ID (heap ex_start 1) = ''id1''"
    by (simp_all add: ex_start_def ex_heap_def)
  have k: "Check ex_strict_provider ?C None ?one = Inr (?one, [CheckFailure ''k'' ''no default''])"
    "Check ex_strict_provider ?A ?one ?two = Inr (?two, [])"
    "Check ex_strict_provider ?A None ?two = Inr (?two, [CheckFailure ''k'' ''no default''])"
    "Diff ex_strict_provider ?A ''id1'' ?one ?two =
       Inr \<lparr>Replace = True, ReplaceKeys = [''k''], StableKeys = []\<rparr>"
    by (simp_all add: ex_strict_provider_def)
  have d: "\<not> DeepEquals ?p ?one ?two" "Olds ?p ?A = Some 1" "analyzers ?p = [''policy'']"
    by (simp_all add: ex_strict_plan_def ex_plan_def)
  have "\<exists>it'. makeRegisterResouceSteps ?p (ex_register ''c'' 1) ex_start =
           Returns (Inl validationError, it')
         \<and> analyzed (trace it') = analyzed (trace ex_start) @ analyzers ?p"
    and "\<exists>err it'. makeRegisterResouceSteps ?p (ex_register ''c'' 1) ex_start =
           Returns (Inl err, it')
         \<and> creates it' = creates ex_start \<and> updates it' = updates ex_start
         \<and> sames it' = sames ex_start \<and> replaces it' = replaces ex_start"
    using check_failures_fatal_in_pass2_only [OF u(1) n r(1) o(1) l(1) g,
        THEN conjunct1, rule_format, of ?one "[CheckFailure ''k'' ''no default'']"] k(1) an(1)
    by simp_all
  then obtain it1 where c1: "makeRegisterResouceSteps ?p (ex_register ''c'' 1) ex_start =
           Returns (Inl validationError, it1)"
      "analyzed (trace it1) = [''policy'']" "creates it1 = {}"
    using s d by auto
  have "\<exists>it'. makeRegisterResouceSteps ?p (ex_register ''a'' 2) ex_start =
           Returns (Inl validationError, it')
         \<and> replaces it' = insert ?A (replaces ex_start) \<and> creates it' = creates ex_start \<and> updates it' = updates ex_start
         \<and> sames it' = sames ex_start
         \<and> trace it' = trace (validated ?p (ex_register ''a'' 2) (Some ex_strict_provider)
                                ?one ?two ex_start)
             @ [ProviderDiff ?A (ID (heap ex_start 1)) ?one ?two, ProviderCheck ?A None ?two]
             @ map (\<lambda>failure.
                 if Property failure \<noteq> [] then DiagErrorf ErrorResourcePropertyInvalidValue ?A
                 else DiagErrorf ErrorResourceInvalid ?A) [CheckFailure ''k'' ''no default'']"
    using check_failures_fatal_in_pass2_only [OF u(2) n r(2) o(2) l(2) g,
        THEN conjunct2, rule_format, of ?two 1
          "\<lparr>Replace = True, ReplaceKeys = [''k''], StableKeys = []\<rparr>" ?two
          "[CheckFailure ''k'' ''no default'']"] k an(2) s d
    by (simp add: ex_register_def)
  then obtain it2 where c2: "makeRegisterResouceSteps ?p (ex_register ''a'' 2) ex_start =
           Returns (Inl validationError, it2)"
      "replaces it2 = {?A}"
      "trace it2 = trace (validated ?p (ex_register ''a'' 2) (Some ex_strict_provider)
                                ?one ?two ex_start)
             @ [ProviderDiff ?A (ID (heap ex_start 1)) ?one ?two, ProviderCheck ?A None ?two]
             @ [DiagErrorf ErrorResourcePropertyInvalidValue ?A]"
    using s by auto
  have v: "trace (validated ?p (ex_register ''a'' 2) (Some ex_strict_provider) ?one ?two ex_start)
      = [ProviderCheck ?A ?one ?two, AnalyzerAnalyze ''policy'' ''p:m:A'' ?two]"
    using s d by (simp add: validated_def u [symmetric] r [symmetric]) (simp add: ex_register_def)
  show ?thesis
    using s by (simp add: c1 c2 v)
qed

lemma Next_moves:
  "Next p it = Returns (r, it') \<Longrightarrow> (move p)\<^sup>*\<^sup>* it it'"
proof (induction p it arbitrary: r it' rule: Next.induct)
  case (1 p it)
  note prem = "1.prems"
  show ?case
  proof (cases "done_flag it")
    case True
    then have "it' = it"
      using prem by (subst (asm) Next.simps) simp
    then show ?thesis by simp
  next
    case nd: False
    show ?thesis
    proof (cases "stepqueue it")
      case (Cons step rest)
      then have "it' = it\<lparr>stepqueue := rest\<rparr>"
        using prem nd by (subst (asm) Next.simps) simp
      then show ?thesis
        using move.pop [OF nd Cons] by blast
    next
      case Nil
      show ?thesis
      proof (cases "srcdone it")
        case True
        show ?thesis
        proof (cases "delqueue it")
          case Nil': Nil
          then have "it' = it\<lparr>done_flag := True\<rparr>"
            using prem nd Nil True
            by (subst (asm) Next.simps) (simp add: nextDeleteStep_def)
          then show ?thesis
            using move.finish [OF nd True Nil'] by blast
        next
          case (Cons d rest)
          then have "it' = it\<lparr>delqueue := rest, deletes := insert (URN (heap it d)) (deletes it)\<rparr>"
            using prem nd Nil True
            by (subst (asm) Next.simps) (simp add: nextDeleteStep_def Let_def)
          then show ?thesis
            using move.delete [OF nd True Cons] by blast
        qed
      next
        case ns: False
        obtain x it1 where s: "src_Next it = (x, it1)"
          by (cases "src_Next it")
        have n: "Next p it =
          (case (x, it1) of
                  (SrcError err, it1) \<Rightarrow> Returns ((None, Some err), it1)
                | (SrcEvent (RegisterEv e), it1) \<Rightarrow>
                    (case makeRegisterResouceSteps p e it1 of
                       Panics m \<Rightarrow> Panics m
                     | Returns (Inl steperr, it2) \<Rightarrow> Returns ((None, Some steperr), it2)
                     | Returns (Inr steps, it2) \<Rightarrow>
                         (case steps of
                            [] \<Rightarrow> Panics ''assertion failed: len(steps) > 0''
                          | s # ss \<Rightarrow>
                              Returns ((Some s, None),
                                if ss \<noteq> [] then it2\<lparr>stepqueue := ss\<rparr> else it2)))
                | (SrcEvent (OutputsEv e), it1) \<Rightarrow>
                    (case registerResourceOutputs p e it1 of
                       Panics m \<Rightarrow> Panics m
                     | Returns (Some err, it2) \<Rightarrow> Returns ((None, Some err), it2)
                     | Returns (None, it2) \<Rightarrow> Next p it2)
                | (SrcEvent UnrecognizedEv, it1) \<Rightarrow>
                    Panics ''Unrecognized intent from source iterator''
                | (SrcEnd, it1) \<Rightarrow>
                    (case computeDeletes p (it1\<lparr>srcdone := True\<rparr>) of
                       Panics m \<Rightarrow> Panics m
                     | Returns dels \<Rightarrow> Next p (it1\<lparr>srcdone := True, delqueue := dels\<rparr>)))"
          using nd Nil ns s by (subst Next.simps) simp
        show ?thesis
        proof (cases x)
          case (SrcError err)
          then have "it' = it1"
            using prem n by simp
          moreover have "src_Next it = (SrcError err, it1)"
            using s SrcError by simp
          ultimately show ?thesis
            using move.source_error [OF nd ns] by blast
        next
          case (SrcEvent ev)
          show ?thesis
          proof (cases ev)
            case (RegisterEv e)
            then have "\<exists>res it2. makeRegisterResouceSteps p e it1 = Returns (res, it2)
                \<and> (it' = it2 \<or> (\<exists>ss. it' = it2\<lparr>stepqueue := ss\<rparr>))"
              using prem n SrcEvent
              by (auto split: exec.splits sum.splits list.splits if_splits)
            then obtain res it2 where m: "makeRegisterResouceSteps p e it1 = Returns (res, it2)"
              and i: "it' = it2 \<or> (\<exists>ss. it' = it2\<lparr>stepqueue := ss\<rparr>)"
              by blast
            have s': "src_Next it = (SrcEvent (RegisterEv e), it1)"
              using s SrcEvent RegisterEv by simp
            from i show ?thesis
              using move.register [OF nd ns s' m] by blast
          next
            case (OutputsEv e)
            then have "\<exists>res it2. registerResourceOutputs p e it1 = Returns (res, it2)
                \<and> ((res \<noteq> None \<and> it' = it2) \<or> (res = None \<and> Next p it2 = Returns (r, it')))"
              using prem n SrcEvent
              by (auto split: exec.splits option.splits)
            then obtain res it2 where m: "registerResourceOutputs p e it1 = Returns (res, it2)"
              and i: "(res \<noteq> None \<and> it' = it2) \<or> (res = None \<and> Next p it2 = Returns (r, it'))"
              by blast
            have s': "src_Next it = (SrcEvent (OutputsEv e), it1)"
              using s SrcEvent OutputsEv by simp
            have mv: "move p it it2"
              using move.outputs [OF nd ns s' m] .
            from i show ?thesis
            proof
              assume "res \<noteq> None \<and> it' = it2"
              then show ?thesis using mv by blast
            next
              assume a: "res = None \<and> Next p it2 = Returns (r, it')"
              have "(move p)\<^sup>*\<^sup>* it2 it'"
                using "1.IH"(1) [OF nd Nil _ s [symmetric] SrcEvent OutputsEv m refl, of r it'] ns a
                by simp
              then show ?thesis
                using mv by (rule converse_rtranclp_into_rtranclp [rotated])
            qed
          next
            case UnrecognizedEv
            then show ?thesis
              using prem n SrcEvent by simp
          qed
        next
          case SrcEnd
          then obtain dels where c: "computeDeletes p (it1\<lparr>srcdone := True\<rparr>) = Returns dels"
            and i: "Next p (it1\<lparr>srcdone := True, delqueue := dels\<rparr>) = Returns (r, it')"
            using prem n by (auto split: exec.splits)
          have s': "src_Next it = (SrcEnd, it1)"
            using s SrcEnd by simp
          have mv: "move p it (it1\<lparr>srcdone := True, delqueue := dels\<rparr>)"
            using move.source_end [OF nd ns s' c] .
          have "(move p)\<^sup>*\<^sup>* (it1\<lparr>srcdone := True, delqueue := dels\<rparr>) it'"
            using "1.IH"(2) [OF nd Nil _ s [symmetric] SrcEnd c, of r it'] ns i
            by simp
          then show ?thesis
            using mv by (rule converse_rtranclp_into_rtranclp [rotated])
        qed
      qed
    qed
  qed
qed

lemma run_moves:
  "run p acts it = Returns it' \<Longrightarrow> (move p)\<^sup>*\<^sup>* it it'"
proof (induction acts arbitrary: it)
  case Nil
  then show ?case by simp
next
  case (Cons a acts)
  show ?case
  proof (cases a)
    case CallNext
    then obtain r it1 where n: "Next p it = Returns (r, it1)" and r: "run p acts it1 = Returns it'"
      using Cons.prems by (auto split: exec.splits)
    then show ?thesis
      using Next_moves [OF n] Cons.IH [OF r] by simp
  next
    case (CallApply step preview)
    then have "run p acts (snd (Apply p step preview it)) = Returns it'"
      using Cons.prems by simp
    from Cons.IH [OF this] show ?thesis
      using move.applied [of p it step preview]
      by (rule converse_rtranclp_into_rtranclp [rotated])
  qed
qed

lemma src_Next_frame:
  "src_Next it = (r, it1) \<Longrightarrow> it1 = it\<lparr>src := src it1, trace := trace it @ [SrcNext r]\<rparr>"
  by (auto simp: src_Next_def logCall_def split: list.splits)

lemma sourced_checkDiags:
  "sourced (map (\<lambda>failure.
      if Property failure \<noteq> [] then DiagErrorf ErrorResourcePropertyInvalidValue urn
      else DiagErrorf ErrorResourceInvalid urn) failures) = []"
  by (induction failures) simp_all

lemma issueCheckErrors_frame:
  "issueCheckErrors new urn failures it = (b, it') \<Longrightarrow>
     it' = it\<lparr>trace := trace it'\<rparr> \<and> sourced (trace it') = sourced (trace it)"
  by (auto simp: issueCheckErrors_def sourced_append sourced_checkDiags split: if_splits)

lemma checkInputs_frame:
  "checkInputs prov new urn olds news it = (r, it') \<Longrightarrow>
     it' = it\<lparr>heap := heap it', trace := trace it'\<rparr>
     \<and> sourced (trace it') = sourced (trace it)
     \<and> (\<forall>a. a \<noteq> new \<longrightarrow> heap it' a = heap it a)"
proof (cases prov)
  case None
  then show "checkInputs prov new urn olds news it = (r, it') \<Longrightarrow> ?thesis"
    by (auto simp: checkInputs_def)
next
  case (Some pr)
  assume c: "checkInputs prov new urn olds news it = (r, it')"
  let ?it1 = "logCall (ProviderCheck urn olds news) it"
  show ?thesis
  proof (cases "Check pr urn olds news")
    case (Inl err)
    then show ?thesis
      using c Some by (auto simp: checkInputs_def logCall_def sourced_append)
  next
    case (Inr x)
    obtain inputs failures where x: "x = (inputs, failures)" by (cases x)
    obtain b it2 where i: "issueCheckErrors new urn failures ?it1 = (b, it2)"
      by (cases "issueCheckErrors new urn failures ?it1")
    have e: "it' = it2\<lparr>heap := (heap it2)(new := (heap it2 new)\<lparr>Inputs := inputs\<rparr>)\<rparr>"
      using c Some Inr x i by (simp add: checkInputs_def Let_def)
    from issueCheckErrors_frame [OF i]
    have f: "it2 = ?it1\<lparr>trace := trace it2\<rparr>" "sourced (trace it2) = sourced (trace ?it1)"
      by simp_all
    have h: "heap it2 = heap it"
      by (subst f(1)) (simp add: logCall_def)
    have "it' = it\<lparr>heap := heap it', trace := trace it'\<rparr>"
      unfolding e by (subst f(1)) (simp add: logCall_def)
    moreover have "sourced (trace it') = sourced (trace it)"
      using f(2) by (simp add: e logCall_def sourced_append)
    moreover have "\<forall>a. a \<noteq> new \<longrightarrow> heap it' a = heap it a"
      by (simp add: e h)
    ultimately show ?thesis by blast
  qed
qed


lemma decideSteps_frame:
  assumes d: "decideSteps p e urn new prov olds news inputs it = Returns (res, it')"
  shows "it' = it\<lparr>creates := creates it', updates := updates it', replaces := replaces it',
              sames := sames it', heap := heap it', trace := trace it'\<rparr>
     \<and> sourced (trace it') = sourced (trace it)
     \<and> (\<forall>a. a \<noteq> new \<longrightarrow> heap it' a = heap it a)
     \<and> (unclassed it it' \<or> classed p urn it it')"
proof (cases "Olds p urn")
  case None
  then have "it' = it\<lparr>creates := insert urn (creates it)\<rparr>"
    using d by (simp add: decideSteps_def)
  then show ?thesis
    by (simp add: classed_def)
next
  case (Some old)
  have t: "Type (heap it old) = Type (heap it new)"
    using d Some by (auto simp: decideSteps_def split: if_splits)
  show ?thesis
  proof (cases "DeepEquals p olds inputs")
    case True
    then have "it' = it\<lparr>sames := insert urn (sames it)\<rparr>"
      using d Some t by (simp add: decideSteps_def)
    then show ?thesis
      by (simp add: classed_def)
  next
    case ne: False
    show ?thesis
    proof (cases prov)
      case None
      then have "it' = it\<lparr>updates := insert urn (updates it)\<rparr>"
        using d Some t ne by (simp add: decideSteps_def zeroDiffResult_def)
      then show ?thesis
        by (simp add: classed_def)
    next
      case pr: (Some pr)
      let ?it1 = "it\<lparr>trace := trace it @ [ProviderDiff urn (ID (heap it old)) olds inputs]\<rparr>"
      show ?thesis
      proof (cases "Diff pr urn (ID (heap it old)) olds inputs")
        case (Inl err)
        then have "it' = ?it1"
          using d Some t ne pr by (simp add: decideSteps_def logCall_def)
        then show ?thesis
          by (simp add: unclassed_def sourced_append)
      next
        case (Inr diff)
        show ?thesis
        proof (cases "Replace diff")
          case False
          then have "it' = ?it1\<lparr>updates := insert urn (updates it)\<rparr>"
            using d Some t ne pr Inr by (simp add: decideSteps_def logCall_def)
          then show ?thesis
            by (simp add: classed_def sourced_append)
        next
          case True
          let ?it3 = "it\<lparr>replaces := insert urn (replaces it),
                        trace := trace it @ [ProviderDiff urn (ID (heap it old)) olds inputs,
                          ProviderCheck urn None news]\<rparr>"
          show ?thesis
          proof (cases "Check pr urn None news")
            case (Inl err)
            then have "it' = ?it3"
              using d Some t ne pr Inr True by (simp add: decideSteps_def logCall_def Let_def)
            then show ?thesis
              using Some by (simp add: classed_def sourced_append)
          next
            case c: (Inr x)
            obtain inputs2 failures where x: "x = (inputs2, failures)" by (cases x)
            show ?thesis
            proof (cases "failures = []")
              case True
              then have "it' = ?it3\<lparr>heap := (heap it)(new := (heap it new)\<lparr>Inputs := inputs2\<rparr>)\<rparr>"
                using d Some t ne pr Inr \<open>Replace diff\<close> c x
                by (simp add: decideSteps_def logCall_def Let_def issueCheckErrors_def)
              then show ?thesis
                using Some by (simp add: classed_def sourced_append)
            next
              case False
              then have "it' = ?it3\<lparr>trace := trace ?it3 @ map (\<lambda>failure.
                  if Property failure \<noteq> [] then DiagErrorf ErrorResourcePropertyInvalidValue urn
                  else DiagErrorf ErrorResourceInvalid urn) failures\<rparr>"
                using d Some t ne pr Inr \<open>Replace diff\<close> c x
                by (simp add: decideSteps_def logCall_def Let_def issueCheckErrors_def)
              then show ?thesis
                using Some by (simp add: classed_def sourced_append sourced_checkDiags)
            qed
          qed
        qed
      qed
    qed
  qed
qed


lemma makeRegisterResouceSteps_unfold:
  "makeRegisterResouceSteps p e it =
     (case goalProvider p (Goal e) of
        Inl err \<Rightarrow> Returns (Inl err, registered p e it)
      | Inr prov \<Rightarrow>
          (case checkInputs prov (next_ref it) (goalURN p e) (oldInputs p e it)
                  (GProperties (Goal e)) (registered p e it) of
             (Inl err, it3) \<Rightarrow> Returns (Inl err, it3)
           | (Inr (inputs, bad), it3) \<Rightarrow>
               (case runAnalyzers p (analyzers p) (next_ref it) (goalURN p e) inputs
                       (goalURN p e \<in> urns it \<or> bad) it3 of
                  (Inl err, it4) \<Rightarrow> Returns (Inl err, it4)
                | (Inr invalid', it4) \<Rightarrow>
                    if invalid' then Returns (Inl validationError, it4)
                    else decideSteps p e (goalURN p e) (next_ref it) prov (oldInputs p e it)
                           (GProperties (Goal e)) inputs it4)))"
proof -
  let ?urn = "goalURN p e"
  let ?st = "NewState (GType (Goal e)) ?urn (GCustom (Goal e)) False [] (GProperties (Goal e))
               None (GParent (Goal e))"
  let ?it1 = "(if ?urn \<in> urns it then logCall (DiagErrorf ErrorDuplicateResourceURN ?urn) it
               else it)\<lparr>urns := insert ?urn (urns it)\<rparr>"
  have e1: "next_ref ?it1 = next_ref it"
    by (simp add: logCall_def)
  have e0: "heap ?it1 = heap it"
    by (simp add: logCall_def)
  have e2: "?it1\<lparr>heap := (heap it)(next_ref it := ?st), next_ref := Suc (next_ref it)\<rparr>
      = registered p e it"
    by (cases it) (simp add: registered_def logCall_def)
  have e3: "Inputs (heap (registered p e it) (next_ref it)) = GProperties (Goal e)"
    by (simp add: registered_def)
  show ?thesis
    by (unfold makeRegisterResouceSteps_def Let_def e1 e0 e2 e3 oldInputs_def) (rule refl)
qed


lemma makeRegisterResouceSteps_frame:
  assumes m: "makeRegisterResouceSteps p e it = Returns (res, it')"
  shows "\<exists>c u r s h t.
      it' = it\<lparr>urns := insert (goalURN p e) (urns it), creates := c, updates := u,
               replaces := r, sames := s, heap := h, next_ref := Suc (next_ref it),
               trace := t\<rparr>
      \<and> sourced t = sourced (trace it)
      \<and> (\<forall>a. a \<noteq> next_ref it \<longrightarrow> h a = heap it a)
      \<and> (unclassed it it' \<or> (goalURN p e \<notin> urns it \<and> classed p (goalURN p e) it it'))"
proof -
  let ?urn = "goalURN p e" and ?new = "next_ref it"
  let ?it2 = "registered p e it"
  let ?P = "\<lambda>it'. \<exists>c u r s h t.
      it' = it\<lparr>urns := insert ?urn (urns it), creates := c, updates := u,
               replaces := r, sames := s, heap := h, next_ref := Suc ?new, trace := t\<rparr>
      \<and> sourced t = sourced (trace it)
      \<and> (\<forall>a. a \<noteq> ?new \<longrightarrow> h a = heap it a)"
  have k2: "?it2 = it\<lparr>urns := insert ?urn (urns it), creates := creates it,
      updates := updates it, replaces := replaces it, sames := sames it,
      heap := heap ?it2, next_ref := Suc ?new, trace := trace ?it2\<rparr>"
    by (cases it) (simp add: registered_def)
  have s2: "sourced (trace ?it2) = sourced (trace it)"
    "\<forall>a. a \<noteq> ?new \<longrightarrow> heap ?it2 a = heap it a"
    by (simp_all add: registered_def sourced_append)
  have u2: "unclassed it ?it2"
    by (simp add: unclassed_def registered_def)
  have p2: "?P ?it2"
    using k2 s2 by blast
  note m' = m [unfolded makeRegisterResouceSteps_unfold]
  show ?thesis
  proof (cases "goalProvider p (Goal e)")
    case (Inl err)
    then have "it' = ?it2"
      using m' by simp
    then show ?thesis
      using p2 u2 by blast
  next
    case (Inr prov)
    obtain rc it3 where c: "checkInputs prov ?new ?urn (oldInputs p e it)
        (GProperties (Goal e)) ?it2 = (rc, it3)"
      by (cases "checkInputs prov ?new ?urn (oldInputs p e it) (GProperties (Goal e)) ?it2")
    from checkInputs_frame [OF c]
    have e3: "it3 = ?it2\<lparr>heap := heap it3, trace := trace it3\<rparr>"
      and s3: "sourced (trace it3) = sourced (trace ?it2)"
      and f3: "\<forall>a. a \<noteq> ?new \<longrightarrow> heap it3 a = heap ?it2 a"
      by simp_all
    have k3: "it3 = it\<lparr>urns := insert ?urn (urns it), creates := creates it,
      updates := updates it, replaces := replaces it, sames := sames it,
      heap := heap it3, next_ref := Suc ?new, trace := trace it3\<rparr>"
      by (subst e3, subst k2) simp
    have u3: "unclassed it it3"
      by (subst k3, simp add: unclassed_def)
    have p3: "?P it3"
    proof -
      have "sourced (trace it3) = sourced (trace it)"
        using s3 s2 by simp
      moreover have "\<forall>a. a \<noteq> ?new \<longrightarrow> heap it3 a = heap it a"
        using f3 s2 by simp
      ultimately show ?thesis
        using k3 by blast
    qed
    show ?thesis
    proof (cases rc)
      case (Inl err)
      then have "it' = it3"
        using m' Inr c by simp
      then show ?thesis
        using p3 u3 by blast
    next
      case rcr: (Inr x)
      obtain inputs bad where x: "x = (inputs, bad)" by (cases x)
      obtain ra it4 where a: "runAnalyzers p (analyzers p) ?new ?urn inputs
          (?urn \<in> urns it \<or> bad) it3 = (ra, it4)"
        by (cases "runAnalyzers p (analyzers p) ?new ?urn inputs (?urn \<in> urns it \<or> bad) it3")
      from runAnalyzers_frame [OF a]
      have e4: "it4 = it3\<lparr>trace := trace it4\<rparr>"
        and s4: "sourced (trace it4) = sourced (trace it3)"
        by simp_all
      have k4: "it4 = it\<lparr>urns := insert ?urn (urns it), creates := creates it,
        updates := updates it, replaces := replaces it, sames := sames it,
        heap := heap it3, next_ref := Suc ?new, trace := trace it4\<rparr>"
        by (subst e4, subst k3) simp
      have u4: "unclassed it it4"
        by (subst k4, simp add: unclassed_def)
      have p4: "?P it4"
      proof -
        have "sourced (trace it4) = sourced (trace it)"
          using s4 s3 s2 by simp
        moreover have "\<forall>a. a \<noteq> ?new \<longrightarrow> heap it3 a = heap it a"
          using f3 s2 by simp
        ultimately show ?thesis
          using k4 by blast
      qed
      have n: "Returns (res, it') =
          (case ra of
             Inl err \<Rightarrow> Returns (Inl err, it4)
           | Inr invalid' \<Rightarrow>
               if invalid' then Returns (Inl validationError, it4)
               else decideSteps p e ?urn ?new prov (oldInputs p e it) (GProperties (Goal e))
                      inputs it4)"
        using m' Inr c rcr x a by (simp del: runAnalyzers.simps)
      show ?thesis
      proof (cases ra)
        case (Inl err)
        then have "it' = it4"
          using n by simp
        then show ?thesis
          using p4 u4 by blast
      next
        case rar: (Inr invalid')
        show ?thesis
        proof (cases invalid')
          case True
          then have "it' = it4"
            using n rar by simp
          then show ?thesis
            using p4 u4 by blast
        next
          case False
          have fresh: "?urn \<notin> urns it"
            using runAnalyzers_invalid [of p "analyzers p" ?new ?urn inputs it3 ra it4] a rar False
            by auto
          have d: "decideSteps p e ?urn ?new prov (oldInputs p e it) (GProperties (Goal e))
                      inputs it4 = Returns (res, it')"
            using n rar False by simp
          from decideSteps_frame [OF d]
          have e5: "it' = it4\<lparr>creates := creates it', updates := updates it',
                replaces := replaces it', sames := sames it', heap := heap it',
                trace := trace it'\<rparr>"
            and s5: "sourced (trace it') = sourced (trace it4)"
            and f5: "\<forall>a. a \<noteq> ?new \<longrightarrow> heap it' a = heap it4 a"
            and c5: "unclassed it4 it' \<or> classed p ?urn it4 it'"
            by simp_all
          have h4: "heap it4 = heap it3" "creates it4 = creates it" "updates it4 = updates it"
            "sames it4 = sames it" "replaces it4 = replaces it"
            by (subst k4, simp)+
          have k5: "it' = it\<lparr>urns := insert ?urn (urns it), creates := creates it',
            updates := updates it', replaces := replaces it', sames := sames it',
            heap := heap it', next_ref := Suc ?new, trace := trace it'\<rparr>"
            by (subst e5, subst k4) simp
          have p5: "?P it'"
          proof -
            have "sourced (trace it') = sourced (trace it)"
              using s5 s4 s3 s2 by simp
            moreover have "\<forall>a. a \<noteq> ?new \<longrightarrow> heap it' a = heap it a"
              using f5 f3 s2 h4(1) by simp
            ultimately show ?thesis
              using k5 by blast
          qed
          have "unclassed it it' \<or> classed p ?urn it it'"
            using c5 h4 by (simp add: unclassed_def classed_def)
          then show ?thesis
            using p5 fresh by blast
        qed
      qed
    qed
  qed
qed

lemma registerResourceOutputs_frame:
  assumes a: "registerResourceOutputs p e it = Returns (res, it')"
  shows "\<exists>g h t. it' = it\<lparr>regs := g, heap := h, trace := t\<rparr>
      \<and> sourced t = sourced (trace it) \<and> (\<forall>a. URN (h a) = URN (heap it a))"
proof -
  obtain reg where r: "regs it (EventURN e) = Some reg"
    using a by (cases "regs it (EventURN e)") (simp_all add: registerResourceOutputs_def)
  let ?g = "(regs it)(EventURN e := None)"
  let ?it1 = "it\<lparr>regs := ?g\<rparr>"
  define mid where "mid =
      (case EventOutputs e of
                   None \<Rightarrow> Returns ?it1
                 | Some outs \<Rightarrow>
                     (case Step_New reg of
                        None \<Rightarrow> Panics ''nil pointer dereference''
                      | Some new \<Rightarrow>
                          Returns (?it1\<lparr>heap := (heap ?it1)
                            (new := AddOutputs outs (heap ?it1 new))\<rparr>)))"
  have a': "(case mid of
             Panics m \<Rightarrow> Panics m
           | Returns it2 \<Rightarrow>
               (case opts_Events p of
                  None \<Rightarrow> Returns (None, logCall (EventDone e) it2)
                | Some ev \<Rightarrow>
                    (let it3 = logCall (ResourceOutputs reg) it2 in
                     case OnResourceOutputs ev reg it2 of
                       Some eventerr \<Rightarrow>
                         Returns (Some (Wrapf eventerr
                           ''resource complete event returned an error''), it3)
                     | None \<Rightarrow> Returns (None, logCall (EventDone e) it3)))) = Returns (res, it')"
    using a r unfolding registerResourceOutputs_def Let_def mid_def by simp
  then obtain it2 where m: "mid = Returns it2"
    by (cases mid) simp_all
  have "\<exists>h. it2 = it\<lparr>regs := ?g, heap := h\<rparr> \<and> (\<forall>a. URN (h a) = URN (heap it a))"
  proof (cases "EventOutputs e")
    case None
    then have "it2 = ?it1"
      using m by (simp add: mid_def)
    moreover have "?it1 = it\<lparr>regs := ?g, heap := heap it\<rparr>"
      by simp
    ultimately have "it2 = it\<lparr>regs := ?g, heap := heap it\<rparr>"
      by (rule trans)
    then show ?thesis by blast
  next
    case (Some outs)
    then obtain new where n: "Step_New reg = Some new"
      using m by (cases "Step_New reg") (simp_all add: mid_def)
    let ?h = "(heap it)(new := AddOutputs outs (heap it new))"
    have "it2 = it\<lparr>regs := ?g, heap := ?h\<rparr>"
      using m Some n by (simp add: mid_def)
    moreover have "\<forall>a. URN (?h a) = URN (heap it a)"
      by (simp add: AddOutputs_def)
    ultimately show ?thesis by blast
  qed
  then obtain h where e2: "it2 = it\<lparr>regs := ?g, heap := h\<rparr>"
    and u: "\<forall>a. URN (h a) = URN (heap it a)"
    by blast
  have "\<exists>tr. it' = it2\<lparr>trace := trace it2 @ tr\<rparr> \<and> sourced tr = []"
  proof (cases "opts_Events p")
    case None
    then have "it' = it2\<lparr>trace := trace it2 @ [EventDone e]\<rparr>"
      using a' m by (simp add: logCall_def)
    then show ?thesis
      by (intro exI [of _ "[EventDone e]"]) simp
  next
    case (Some ev)
    show ?thesis
    proof (cases "OnResourceOutputs ev reg it2")
      case None
      then have "it' = it2\<lparr>trace := trace it2 @ [ResourceOutputs reg, EventDone e]\<rparr>"
        using a' m Some by (simp add: logCall_def Let_def)
      then show ?thesis
        by (intro exI [of _ "[ResourceOutputs reg, EventDone e]"]) simp
    next
      case (Some eventerr)
      then have "it' = it2\<lparr>trace := trace it2 @ [ResourceOutputs reg]\<rparr>"
        using a' m \<open>opts_Events p = Some ev\<close> by (simp add: logCall_def Let_def)
      then show ?thesis
        by (intro exI [of _ "[ResourceOutputs reg]"]) simp
    qed
  qed
  then obtain tr where e3: "it' = it2\<lparr>trace := trace it2 @ tr\<rparr>" and s: "sourced tr = []"
    by blast
  have "it' = it\<lparr>regs := ?g, heap := h, trace := trace it @ tr\<rparr>"
    unfolding e3 e2 by simp
  moreover have "sourced (trace it @ tr) = sourced (trace it)"
    using s by (simp add: sourced_append)
  ultimately show ?thesis
    using u by blast
qed

lemma Apply_frame:
  assumes f: "step_Apply_frame p"
  shows "\<exists>g h n rs ds t. snd (Apply p step preview it) =
        it\<lparr>regs := g, heap := h, next_ref := n, resources := rs, dones := ds, trace := t\<rparr>
      \<and> sourced t = sourced (trace it) \<and> next_ref it \<le> n
      \<and> (\<forall>a<next_ref it. URN (h a) = URN (heap it a))"
proof -
  let ?P = "\<lambda>it'. \<exists>g h n rs ds t. it' =
        it\<lparr>regs := g, heap := h, next_ref := n, resources := rs, dones := ds, trace := t\<rparr>
      \<and> sourced t = sourced (trace it) \<and> next_ref it \<le> n
      \<and> (\<forall>a<next_ref it. URN (h a) = URN (heap it a))"
  have P_it: "?P it"
  proof -
    have "it = it\<lparr>regs := regs it, heap := heap it, next_ref := next_ref it,
        resources := resources it, dones := dones it, trace := trace it\<rparr>"
      by (cases it) simp
    then show ?thesis by blast
  qed
  have P_regs: "?P (x\<lparr>regs := g\<rparr>)" if "?P x" for x g
  proof -
    from that obtain g0 h n rs ds t where x: "x = it\<lparr>regs := g0, heap := h, next_ref := n,
        resources := rs, dones := ds, trace := t\<rparr>"
      and r: "sourced t = sourced (trace it)" "next_ref it \<le> n"
        "\<forall>a<next_ref it. URN (h a) = URN (heap it a)"
      by blast
    have "x\<lparr>regs := g\<rparr> = it\<lparr>regs := g, heap := h, next_ref := n,
        resources := rs, dones := ds, trace := t\<rparr>"
      unfolding x by (cases it) simp
    then show ?thesis using r by blast
  qed
  have P_trace: "?P (x\<lparr>trace := trace x @ tr\<rparr>)" if "?P x" "sourced tr = []" for x tr
  proof -
    from that obtain g0 h n rs ds t where x: "x = it\<lparr>regs := g0, heap := h, next_ref := n,
        resources := rs, dones := ds, trace := t\<rparr>"
      and r: "sourced t = sourced (trace it)" "next_ref it \<le> n"
        "\<forall>a<next_ref it. URN (h a) = URN (heap it a)"
      by blast
    have "x\<lparr>trace := trace x @ tr\<rparr> = it\<lparr>regs := g0, heap := h, next_ref := n,
        resources := rs, dones := ds, trace := t @ tr\<rparr>"
      unfolding x by (cases it) simp
    moreover have "sourced (t @ tr) = sourced (trace it)"
      using r(1) that(2) by (simp add: sourced_append)
    ultimately show ?thesis using r by blast
  qed
  have P_step: "?P (snd (step_Apply p step preview x))" if "?P x" for x
  proof -
    let ?y = "snd (step_Apply p step preview x)"
    from that obtain g0 h n rs ds t where x: "x = it\<lparr>regs := g0, heap := h, next_ref := n,
        resources := rs, dones := ds, trace := t\<rparr>"
      and r: "sourced t = sourced (trace it)" "next_ref it \<le> n"
        "\<forall>a<next_ref it. URN (h a) = URN (heap it a)"
      by blast
    from f have y: "?y = x\<lparr>heap := heap ?y, next_ref := next_ref ?y,
                    resources := resources ?y, dones := dones ?y\<rparr>"
      and n: "next_ref x \<le> next_ref ?y"
      and u: "\<forall>r<next_ref x. URN (heap ?y r) = URN (heap x r)"
      unfolding step_Apply_frame_def Let_def by blast+
    have "?y = it\<lparr>regs := g0, heap := heap ?y, next_ref := next_ref ?y,
        resources := resources ?y, dones := dones ?y, trace := t\<rparr>"
      by (subst y, unfold x) (cases it, simp)
    moreover have "next_ref it \<le> next_ref ?y"
      using n r(2) by (simp add: x)
    moreover have "\<forall>a<next_ref it. URN (heap ?y a) = URN (heap it a)"
      using u r(2,3) by (simp add: x)
    ultimately show ?thesis using r(1) by blast
  qed
  show ?thesis
  proof (cases "opts_Events p")
    case None
    let ?it1 = "it\<lparr>trace := trace it @ [StepApply step preview]\<rparr>"
    let ?it2 = "snd (step_Apply p step preview ?it1)"
    have p2: "?P ?it2"
      by (intro P_step P_trace P_it) simp
    have "snd (Apply p step preview it) = ?it2
        \<or> snd (Apply p step preview it) = ?it2\<lparr>regs := (regs ?it2)(Step_URN (heap it) step \<mapsto> step)\<rparr>"
      using None
      by (cases "step_Apply p step preview ?it1") (auto simp: Apply_def logCall_def Let_def)
    then show ?thesis
      using p2 P_regs [OF p2] by (elim disjE) simp_all
  next
    case (Some ev)
    obtain ctx eventerr where pre: "OnResourceStepPre ev step it = (ctx, eventerr)"
      by (cases "OnResourceStepPre ev step it")
    show ?thesis
    proof (cases eventerr)
      case (Some x)
      then have "snd (Apply p step preview it) = it\<lparr>trace := trace it @ [StepPre step]\<rparr>"
        using \<open>opts_Events p = Some ev\<close> pre by (simp add: Apply_def logCall_def)
      then show ?thesis
        using P_trace [OF P_it, of "[StepPre step]"] by simp
    next
      case None
      let ?it1 = "it\<lparr>trace := trace it @ [StepPre step, StepApply step preview]\<rparr>"
      let ?it2 = "snd (step_Apply p step preview ?it1)"
      obtain status err where s: "fst (step_Apply p step preview ?it1) = (status, err)"
        by (cases "fst (step_Apply p step preview ?it1)")
      let ?it3 = "?it2\<lparr>regs := (regs ?it2)(Step_URN (heap it) step \<mapsto> step)\<rparr>"
      let ?post = "[StepPost ctx step status err]"
      have p2: "?P ?it2"
        by (intro P_step P_trace P_it) simp
      have p3: "?P ?it3"
        by (rule P_regs [OF p2])
      have "snd (Apply p step preview it) = ?it2
        \<or> snd (Apply p step preview it) = ?it2\<lparr>trace := trace ?it2 @ ?post\<rparr>
        \<or> snd (Apply p step preview it) = ?it3\<lparr>trace := trace ?it3 @ ?post\<rparr>"
        using \<open>opts_Events p = Some ev\<close> pre None s
        by (cases "step_Apply p step preview ?it1")
          (auto simp: Apply_def logCall_def Let_def split: option.splits)
      then show ?thesis
        using p2 P_trace [OF p2, of ?post] P_trace [OF p3, of ?post]
        by (elim disjE) simp_all
    qed
  qed
qed

lemma ends_once_snoc:
  "SrcEnd \<notin> set rs \<Longrightarrow> ends_once (rs @ [r])"
  by (induction rs) auto

lemma source_inv_answer:
  assumes i: "source_inv it" and n: "\<not> srcdone it"
    and t: "sourced (trace it') = sourced (trace it) @ [r]"
    and d: "r = SrcEnd \<longrightarrow> srcdone it'"
  shows "source_inv it'"
proof -
  have "SrcEnd \<notin> set (sourced (trace it))"
    using i n by (auto simp: source_inv_def)
  then show ?thesis
    using t d by (auto simp: source_inv_def ends_once_snoc)
qed

lemma source_inv_frame:
  assumes "source_inv it" "sourced (trace it') = sourced (trace it)" "srcdone it' = srcdone it"
  shows "source_inv it'"
  using assms by (simp add: source_inv_def)

lemma src_Next_sourced:
  assumes "src_Next it = (r, it1)"
  shows "sourced (trace it1) = sourced (trace it) @ [r]" "srcdone it1 = srcdone it"
    "done_flag it1 = done_flag it"
proof -
  have e: "it1 = it\<lparr>src := src it1, trace := trace it @ [SrcNext r]\<rparr>"
    using assms by (rule src_Next_frame)
  have "trace it1 = trace it @ [SrcNext r]"
    by (subst e) simp
  then show "sourced (trace it1) = sourced (trace it) @ [r]"
    by (simp add: sourced_append)
  show "srcdone it1 = srcdone it"
    by (subst e) simp
  show "done_flag it1 = done_flag it"
    by (subst e) simp
qed

lemma makeRegisterResouceSteps_fields:
  assumes "makeRegisterResouceSteps p e it = Returns (res, it')"
  shows "sourced (trace it') = sourced (trace it)" "srcdone it' = srcdone it"
    "done_flag it' = done_flag it" "delqueue it' = delqueue it" "deletes it' = deletes it"
    "urns it' = insert (goalURN p e) (urns it)" "next_ref it' = Suc (next_ref it)"
    "\<forall>a. a \<noteq> next_ref it \<longrightarrow> heap it' a = heap it a"
    "unclassed it it' \<or> (goalURN p e \<notin> urns it \<and> classed p (goalURN p e) it it')"
  using makeRegisterResouceSteps_frame [OF assms] by clarsimp+

lemma registerResourceOutputs_fields:
  assumes "registerResourceOutputs p e it = Returns (res, it')"
  shows "sourced (trace it') = sourced (trace it)" "srcdone it' = srcdone it"
    "done_flag it' = done_flag it" "delqueue it' = delqueue it" "deletes it' = deletes it"
    "urns it' = urns it" "next_ref it' = next_ref it"
    "creates it' = creates it" "updates it' = updates it" "sames it' = sames it"
    "replaces it' = replaces it"
    "\<forall>a. URN (heap it' a) = URN (heap it a)"
  using registerResourceOutputs_frame [OF assms] by clarsimp+

lemma Apply_fields:
  assumes "step_Apply_frame p"
  shows "sourced (trace (snd (Apply p step preview it))) = sourced (trace it)"
    "srcdone (snd (Apply p step preview it)) = srcdone it"
    "done_flag (snd (Apply p step preview it)) = done_flag it"
    "delqueue (snd (Apply p step preview it)) = delqueue it"
    "stepqueue (snd (Apply p step preview it)) = stepqueue it"
    "src (snd (Apply p step preview it)) = src it"
    "deletes (snd (Apply p step preview it)) = deletes it"
    "urns (snd (Apply p step preview it)) = urns it"
    "creates (snd (Apply p step preview it)) = creates it"
    "updates (snd (Apply p step preview it)) = updates it"
    "sames (snd (Apply p step preview it)) = sames it"
    "replaces (snd (Apply p step preview it)) = replaces it"
    "next_ref it \<le> next_ref (snd (Apply p step preview it))"
    "\<forall>a<next_ref it. URN (heap (snd (Apply p step preview it)) a) = URN (heap it a)"
  using Apply_frame [OF assms, of step preview it] by clarsimp+

lemma source_inv_register:
  assumes s: "src_Next it = (SrcEvent (RegisterEv e), it1)"
    and k: "makeRegisterResouceSteps p e it1 = Returns (res, it2)"
    and r: "it3 = it2 \<or> it3 = it2\<lparr>stepqueue := ss\<rparr>" "\<not> srcdone it" "source_inv it"
  shows "source_inv it3"
proof -
  have "sourced (trace it3) = sourced (trace it2)" "srcdone it3 = srcdone it2"
    using r(1) by auto
  then have "sourced (trace it3) = sourced (trace it) @ [SrcEvent (RegisterEv e)]"
    "srcdone it3 = srcdone it"
    using src_Next_sourced(1,2) [OF s] makeRegisterResouceSteps_fields(1,2) [OF k] by simp_all
  then show ?thesis
    using r
    by (intro source_inv_answer [of it it3 "SrcEvent (RegisterEv e)"]) simp_all
qed

lemma source_inv_outputs:
  assumes s: "src_Next it = (SrcEvent (OutputsEv e), it1)"
    and k: "registerResourceOutputs p e it1 = Returns (res, it2)"
    and r: "\<not> srcdone it" "source_inv it"
  shows "source_inv it2"
proof -
  have "sourced (trace it2) = sourced (trace it) @ [SrcEvent (OutputsEv e)]"
    "srcdone it2 = srcdone it"
    using src_Next_sourced(1,2) [OF s] registerResourceOutputs_fields(1,2) [OF k] by simp_all
  then show ?thesis
    using r
    by (intro source_inv_answer [of it it2 "SrcEvent (OutputsEv e)"]) simp_all
qed

lemma source_inv_source_error:
  assumes s: "src_Next it = (SrcError err, it1)"
    and r: "\<not> srcdone it" "source_inv it"
  shows "source_inv it1"
  using r src_Next_sourced(1) [OF s]
  by (intro source_inv_answer [of it it1 "SrcError err"]) simp_all

lemma source_inv_source_end:
  assumes s: "src_Next it = (SrcEnd, it1)"
    and r: "\<not> srcdone it" "source_inv it"
  shows "source_inv (it1\<lparr>srcdone := True, delqueue := dels\<rparr>)"
  using r src_Next_sourced(1) [OF s]
  by (intro source_inv_answer [of it "it1\<lparr>srcdone := True, delqueue := dels\<rparr>" SrcEnd]) simp_all

lemma source_inv_applied:
  assumes f: "step_Apply_frame p" and r: "source_inv it"
  shows "source_inv (snd (Apply p step preview it))"
  using r Apply_fields(1,2) [OF f, of step preview it]
  by (intro source_inv_frame [of it "snd (Apply p step preview it)"]) simp_all

lemma move_source_inv:
  assumes f: "step_Apply_frame p" and m: "move p it it'" and i: "source_inv it"
  shows "source_inv it'"
  using m i
proof (induction rule: move.induct)
  case (pop it step rest)
  then show ?case by (simp add: source_inv_def)
next
  case (source_error it err it1)
  then show ?case by (intro source_inv_source_error [of it err it1])
next
  case (register it e it1 res it2 it3 ss)
  then show ?case by (intro source_inv_register [of it e it1 p res it2 it3 ss])
next
  case (outputs it e it1 res it2)
  then show ?case by (intro source_inv_outputs [of it e it1 p res it2])
next
  case (source_end it it1 dels)
  then show ?case by (intro source_inv_source_end [of it it1 dels])
next
  case (delete it d rest)
  then show ?case by (simp add: source_inv_def)
next
  case (finish it)
  then show ?case by (simp add: source_inv_def)
next
  case (applied it step preview)
  then show ?case by (intro source_inv_applied [OF f, of it step preview])
qed

lemma moves_source_inv:
  assumes f: "step_Apply_frame p" and m: "(move p)\<^sup>*\<^sup>* it it'" and i: "source_inv it"
  shows "source_inv it'"
  using m i by (induction rule: rtranclp_induct) (auto intro: move_source_inv [OF f])

lemma Start_source_inv:
  "Start p = Inr it \<Longrightarrow> source_inv it"
  by (auto simp: Start_def source_inv_def split: option.splits sum.splits)

lemma plan_inv_same:
  assumes "plan_inv p it"
    and "creates it' = creates it" "updates it' = updates it" "sames it' = sames it"
    and "replaces it' = replaces it" "urns it' = urns it" "deletes it' = deletes it"
    and "delqueue it' = delqueue it" "srcdone it' = srcdone it" "done_flag it' = done_flag it"
    and "next_ref it \<le> next_ref it'"
    and "\<forall>a<next_ref it. URN (heap it' a) = URN (heap it a)"
    and w: "plan_wf p"
  shows "plan_inv p it'"
proof -
  have q: "\<forall>d\<in>set (delqueue it). URN (heap it' d) = URN (heap it d)"
    using assms unfolding plan_inv_def plan_wf_def
    by (metis (no_types, lifting) subsetD order_less_le_trans)
  have "\<forall>r<prior_top p. URN (heap it' r) = URN (prior_heap p r)"
    using assms unfolding plan_inv_def
    by (metis (no_types, lifting) order_less_le_trans)
  moreover have "prior_top p \<le> next_ref it'"
    using assms unfolding plan_inv_def by linarith
  moreover have "srcdone it' \<longrightarrow>
          (\<forall>u \<in> replaces it'. u \<in> deletes it' \<or> (\<exists>d \<in> set (delqueue it'). URN (heap it' d) = u))"
    using assms(1) q unfolding plan_inv_def assms(2-10) by metis
  ultimately show ?thesis
    using assms(1) unfolding plan_inv_def assms(2-10) by simp
qed

lemma src_Next_fields:
  assumes "src_Next it = (r, it1)"
  shows "creates it1 = creates it" "updates it1 = updates it" "sames it1 = sames it"
    "replaces it1 = replaces it" "urns it1 = urns it" "deletes it1 = deletes it"
    "delqueue it1 = delqueue it" "stepqueue it1 = stepqueue it"
    "next_ref it1 = next_ref it" "heap it1 = heap it"
  using src_Next_frame [OF assms] by (cases it, cases it1, simp)+

lemma plan_inv_src_Next:
  assumes "plan_wf p" "plan_inv p it" "src_Next it = (r, it1)"
  shows "plan_inv p it1"
  using assms(2) src_Next_fields [OF assms(3)] src_Next_sourced(2,3) [OF assms(3)] assms(1)
  by (intro plan_inv_same [of p it it1]) simp_all

lemma plan_inv_registered:
  assumes i: "plan_inv p it" and n: "\<not> srcdone it"
    and m: "makeRegisterResouceSteps p e it = Returns (res, it')"
  shows "plan_inv p it'"
proof -
  note k = makeRegisterResouceSteps_fields [OF m]
  let ?urn = "goalURN p e"
  have c: "unclassed it it' \<or> (?urn \<notin> urns it \<and> classed p ?urn it it')"
    by (rule k(9))
  have u: "creates it \<union> updates it \<union> sames it \<union> replaces it \<subseteq> urns it"
    and d: "creates it \<inter> updates it = {}" "creates it \<inter> sames it = {}"
      "updates it \<inter> sames it = {}"
    and o: "replaces it \<subseteq> dom (Olds p)"
    using i by (simp_all add: plan_inv_def)
  have 1: "creates it' \<inter> updates it' = {} \<and> creates it' \<inter> sames it' = {}
      \<and> updates it' \<inter> sames it' = {}"
    using c u d unfolding unclassed_def classed_def by (elim disjE conjE) auto
  have 2: "creates it' \<union> updates it' \<union> sames it' \<union> replaces it' \<subseteq> urns it'"
    using c u unfolding unclassed_def classed_def k(6) by (elim disjE conjE) auto
  have 3: "replaces it' \<subseteq> dom (Olds p)"
    using c o unfolding unclassed_def classed_def by (elim disjE conjE) auto
  have 7: "prior_top p \<le> next_ref it'"
    using i by (simp add: plan_inv_def k(7))
  have 8: "\<forall>r<prior_top p. URN (heap it' r) = URN (prior_heap p r)"
    using i k(8) by (simp add: plan_inv_def)
  show ?thesis
    unfolding plan_inv_def
    using 1 2 3 7 8 i n by (simp add: k(2,3,4) plan_inv_def)
qed

lemma plan_inv_source_end:
  assumes i: "plan_inv p it" and w: "plan_wf p" and n: "\<not> done_flag it"
    and c: "computeDeletes p (it\<lparr>srcdone := True\<rparr>) = Returns dels"
  shows "plan_inv p (it\<lparr>srcdone := True, delqueue := dels\<rparr>)"
proof -
  have dels: "dels = filter (toDelete (it\<lparr>srcdone := True\<rparr>)) (rev (prior p))"
    using c by (simp add: computeDeletes_eq split: if_splits)
  have s: "set dels \<subseteq> set (prior p)"
    by (auto simp: dels)
  have "\<exists>d \<in> set dels. URN (heap it d) = u" if r: "u \<in> replaces it" for u
  proof -
    obtain old where o: "Olds p u = Some old"
      using i r by (auto simp: plan_inv_def)
    then have m: "old \<in> set (prior p)" and up: "URN (prior_heap p old) = u"
      using w by (auto simp: plan_wf_def)
    then have "old < prior_top p"
      using w by (auto simp: plan_wf_def)
    then have "URN (heap it old) = u"
      using i up by (simp add: plan_inv_def)
    moreover from this have "old \<in> set dels"
      using m r by (simp add: dels toDelete_def)
    ultimately show ?thesis by blast
  qed
  then show ?thesis
    using i n s by (simp add: plan_inv_def)
qed

lemma plan_inv_delete:
  assumes i: "plan_inv p it" and q: "delqueue it = d # rest"
  shows "plan_inv p (it\<lparr>delqueue := rest, deletes := insert (URN (heap it d)) (deletes it)\<rparr>)"
proof -
  have "u \<in> insert (URN (heap it d)) (deletes it) \<or> (\<exists>d \<in> set rest. URN (heap it d) = u)"
    if "srcdone it" "u \<in> replaces it" for u
    using i that q unfolding plan_inv_def by auto
  then show ?thesis
    using i q by (simp add: plan_inv_def)
qed

lemma plan_inv_finish:
  assumes "plan_inv p it" "srcdone it" "delqueue it = []"
  shows "plan_inv p (it\<lparr>done_flag := True\<rparr>)"
  using assms by (simp add: plan_inv_def)

lemma plan_inv_applied:
  assumes f: "step_Apply_frame p" and w: "plan_wf p" and i: "plan_inv p it"
  shows "plan_inv p (snd (Apply p step preview it))"
  using i w Apply_fields [OF f, where step = step and preview = preview and it = it]
  by (intro plan_inv_same [of p it "snd (Apply p step preview it)"]) simp_all

lemma move_plan_inv:
  assumes f: "step_Apply_frame p" and w: "plan_wf p" and m: "move p it it'"
    and i: "plan_inv p it"
  shows "plan_inv p it'"
  using m i
proof (induction rule: move.induct)
  case (pop it step rest)
  then show ?case
    using w by (intro plan_inv_same [of p it "it\<lparr>stepqueue := rest\<rparr>"]) simp_all
next
  case (source_error it err it1)
  then show ?case by (intro plan_inv_src_Next [OF w, of it "SrcError err" it1])
next
  case (register it e it1 res it2 it3 ss)
  have "plan_inv p it1"
    using register by (intro plan_inv_src_Next [OF w, of it "SrcEvent (RegisterEv e)" it1])
  moreover have "\<not> srcdone it1"
    using register(2) src_Next_sourced(2) [OF register(3)] by simp
  ultimately have 2: "plan_inv p it2"
    using register(4) by (intro plan_inv_registered [of p it1 e res it2])
  show ?case
    using register(5)
  proof
    assume "it3 = it2"
    then show ?thesis using 2 by simp
  next
    assume "it3 = it2\<lparr>stepqueue := ss\<rparr>"
    then show ?thesis
      using 2 w by (intro plan_inv_same [of p it2 it3]) simp_all
  qed
next
  case (outputs it e it1 res it2)
  have "plan_inv p it1"
    using outputs by (intro plan_inv_src_Next [OF w, of it "SrcEvent (OutputsEv e)" it1])
  then show ?case
    using w registerResourceOutputs_fields [OF outputs(4)]
    by (intro plan_inv_same [of p it1 it2]) simp_all
next
  case (source_end it it1 dels)
  have "plan_inv p it1"
    using source_end by (intro plan_inv_src_Next [OF w, of it SrcEnd it1])
  moreover have "\<not> done_flag it1"
    using source_end(1) src_Next_sourced(3) [OF source_end(3)] by simp
  ultimately show ?case
    using source_end(4) w by (intro plan_inv_source_end [of p it1 dels])
next
  case (delete it d rest)
  then show ?case by (intro plan_inv_delete [of p it d rest])
next
  case (finish it)
  then show ?case by (intro plan_inv_finish [of p it])
next
  case (applied it step preview)
  then show ?case by (intro plan_inv_applied [OF f w, of it step preview])
qed

lemma moves_plan_inv:
  assumes f: "step_Apply_frame p" and w: "plan_wf p" and m: "(move p)\<^sup>*\<^sup>* it it'"
    and i: "plan_inv p it"
  shows "plan_inv p it'"
  using m i by (induction rule: rtranclp_induct) (auto intro: move_plan_inv [OF f w])

lemma Start_plan_inv:
  "Start p = Inr it \<Longrightarrow> plan_inv p it"
  by (auto simp: Start_def plan_inv_def split: option.splits sum.splits)

lemma Next_done:
  "done_flag it \<Longrightarrow> Next p it = Returns ((None, None), it)"
  by (subst Next.simps) simp

lemma Nexts_done:
  "done_flag it \<Longrightarrow> Nexts p n it = Returns (replicate n (None, None), it)"
  by (induction n) (simp_all add: Next_done)

lemma run_done:
  assumes f: "step_Apply_frame p"
  shows "done_flag it \<Longrightarrow>
    \<exists>it'. run p acts it = Returns it' \<and> done_flag it' \<and> src it' = src it
      \<and> stepqueue it' = stepqueue it \<and> delqueue it' = delqueue it
      \<and> sourced (trace it') = sourced (trace it)"
proof (induction acts arbitrary: it)
  case Nil
  then show ?case by simp
next
  case (Cons a acts)
  show ?case
  proof (cases a)
    case CallNext
    then show ?thesis
      using Cons.IH [OF Cons.prems] Cons.prems by (simp add: Next_done)
  next
    case (CallApply step preview)
    let ?it1 = "snd (Apply p step preview it)"
    note k = Apply_fields [OF f, where step = step and preview = preview and it = it]
    have "done_flag ?it1"
      using Cons.prems k(3) by simp
    from Cons.IH [OF this] show ?thesis
      using CallApply k by simp
  qed
qed

lemma Next_sets_done:
  "Next p it = Returns (r, it') \<Longrightarrow> \<not> done_flag it \<Longrightarrow> done_flag it' \<Longrightarrow> r = (None, None)"
proof (induction p it arbitrary: r it' rule: Next.induct)
  case (1 p it)
  note prem = "1.prems"(1) and nd = "1.prems"(2) and d' = "1.prems"(3)
  show ?case
  proof (cases "stepqueue it")
    case (Cons step rest)
    then have "it' = it\<lparr>stepqueue := rest\<rparr>"
      using prem nd by (subst (asm) Next.simps) simp
    then show ?thesis
      using nd d' by simp
  next
    case Nil
    show ?thesis
    proof (cases "srcdone it")
      case True
      show ?thesis
      proof (cases "delqueue it")
        case Nil': Nil
        then show ?thesis
          using prem nd Nil True
          by (subst (asm) Next.simps) (simp add: nextDeleteStep_def)
      next
        case (Cons d rest)
        then have "it' = it\<lparr>delqueue := rest, deletes := insert (URN (heap it d)) (deletes it)\<rparr>"
          using prem nd Nil True
          by (subst (asm) Next.simps) (simp add: nextDeleteStep_def Let_def)
        then show ?thesis
          using nd d' by simp
      qed
    next
      case ns: False
      obtain x it1 where s: "src_Next it = (x, it1)"
        by (cases "src_Next it")
      have d1: "\<not> done_flag it1"
        using src_Next_sourced(3) [OF s] nd by simp
      have n: "Next p it =
          (case (x, it1) of
                  (SrcError err, it1) \<Rightarrow> Returns ((None, Some err), it1)
                | (SrcEvent (RegisterEv e), it1) \<Rightarrow>
                    (case makeRegisterResouceSteps p e it1 of
                       Panics m \<Rightarrow> Panics m
                     | Returns (Inl steperr, it2) \<Rightarrow> Returns ((None, Some steperr), it2)
                     | Returns (Inr steps, it2) \<Rightarrow>
                         (case steps of
                            [] \<Rightarrow> Panics ''assertion failed: len(steps) > 0''
                          | s # ss \<Rightarrow>
                              Returns ((Some s, None),
                                if ss \<noteq> [] then it2\<lparr>stepqueue := ss\<rparr> else it2)))
                | (SrcEvent (OutputsEv e), it1) \<Rightarrow>
                    (case registerResourceOutputs p e it1 of
                       Panics m \<Rightarrow> Panics m
                     | Returns (Some err, it2) \<Rightarrow> Returns ((None, Some err), it2)
                     | Returns (None, it2) \<Rightarrow> Next p it2)
                | (SrcEvent UnrecognizedEv, it1) \<Rightarrow>
                    Panics ''Unrecognized intent from source iterator''
                | (SrcEnd, it1) \<Rightarrow>
                    (case computeDeletes p (it1\<lparr>srcdone := True\<rparr>) of
                       Panics m \<Rightarrow> Panics m
                     | Returns dels \<Rightarrow> Next p (it1\<lparr>srcdone := True, delqueue := dels\<rparr>)))"
        using nd Nil ns s by (subst Next.simps) simp
      show ?thesis
      proof (cases x)
        case (SrcError err)
        then have "it' = it1"
          using prem n by simp
        then show ?thesis
          using d1 d' by simp
      next
        case (SrcEvent ev)
        show ?thesis
        proof (cases ev)
          case (RegisterEv e)
          then have "\<exists>res it2. makeRegisterResouceSteps p e it1 = Returns (res, it2)
                \<and> (it' = it2 \<or> (\<exists>ss. it' = it2\<lparr>stepqueue := ss\<rparr>))"
            using prem n SrcEvent
            by (auto split: exec.splits sum.splits list.splits if_splits)
          then obtain res it2 where m: "makeRegisterResouceSteps p e it1 = Returns (res, it2)"
            and i: "it' = it2 \<or> (\<exists>ss. it' = it2\<lparr>stepqueue := ss\<rparr>)"
            by blast
          have "done_flag it' = done_flag it2"
            using i by auto
          then show ?thesis
            using makeRegisterResouceSteps_fields(3) [OF m] d1 d' by simp
        next
          case (OutputsEv e)
          then have "\<exists>res it2. registerResourceOutputs p e it1 = Returns (res, it2)
                \<and> ((res \<noteq> None \<and> it' = it2) \<or> (res = None \<and> Next p it2 = Returns (r, it')))"
            using prem n SrcEvent
            by (auto split: exec.splits option.splits)
          then obtain res it2 where m: "registerResourceOutputs p e it1 = Returns (res, it2)"
            and i: "(res \<noteq> None \<and> it' = it2) \<or> (res = None \<and> Next p it2 = Returns (r, it'))"
            by blast
          have d2: "\<not> done_flag it2"
            using registerResourceOutputs_fields(3) [OF m] d1 by simp
          from i show ?thesis
          proof
            assume "res \<noteq> None \<and> it' = it2"
            then show ?thesis using d2 d' by simp
          next
            assume a: "res = None \<and> Next p it2 = Returns (r, it')"
            show ?thesis
              using "1.IH"(1) [OF nd Nil _ s [symmetric] SrcEvent OutputsEv m refl, of r it']
                ns a d2 d'
              by simp
          qed
        next
          case UnrecognizedEv
          then show ?thesis
            using prem n SrcEvent by simp
        qed
      next
        case SrcEnd
        then obtain dels where c: "computeDeletes p (it1\<lparr>srcdone := True\<rparr>) = Returns dels"
          and i: "Next p (it1\<lparr>srcdone := True, delqueue := dels\<rparr>) = Returns (r, it')"
          using prem n by (auto split: exec.splits)
        show ?thesis
          using "1.IH"(2) [OF nd Nil _ s [symmetric] SrcEnd c, of r it'] ns i d1 d'
          by simp
      qed
    qed
  qed
qed

lemma run_Nexts:
  "run p (replicate n CallNext) it =
     (case Nexts p n it of Panics m \<Rightarrow> Panics m | Returns (rs, it') \<Rightarrow> Returns it')"
  by (induction n arbitrary: it) (auto split: exec.splits)

lemma ex_computeDeletes:
  "computeDeletes ex_plan ex_start = Returns [2, 1]"
  by (simp add: computeDeletes_eq prior_def ex_plan_def ex_start_def ex_heap_def NewState_def
      toDelete_def)

lemma ex_Nexts:
  "Nexts ex_plan 3 ex_start =
       Returns ([(Some (DeleteStep 2 False), None), (Some (DeleteStep 1 False), None),
                 (None, None)],
         ex_start\<lparr>trace := [SrcNext SrcEnd], srcdone := True,
           deletes := {''urn:pulumi:t::k::p:m:A::a'', ''urn:pulumi:t::k::p:m:B::b''}, done_flag := True\<rparr>)"
proof -
  let ?itd = "(snd (src_Next ex_start))\<lparr>srcdone := True, delqueue := [2, 1]\<rparr>"
  have n: "Next ex_plan ex_start = Next ex_plan ?itd"
    using ex_computeDeletes
    by (intro Next_source_end) (simp_all add: ex_start_def src_Next_def logCall_def)
  have "Nexts ex_plan (Suc (length [2::nat, 1])) ?itd =
     Returns (map (\<lambda>d. (Some (DeleteStep d (URN (heap ?itd d) \<in> replaces ?itd)), None)) [2, 1]
                @ [(None, None)],
              ?itd\<lparr>delqueue := [],
                 deletes := deletes ?itd \<union> (\<lambda>d. URN (heap ?itd d)) ` set [2, 1],
                 done_flag := True\<rparr>)"
    by (intro Nexts_drain) (simp_all add: ex_start_def src_Next_def logCall_def)
  moreover have "Nexts ex_plan (Suc (length [2::nat, 1])) ex_start
      = Nexts ex_plan (Suc (length [2::nat, 1])) ?itd"
    using n by (simp only: Nexts.simps)
  ultimately have "Nexts ex_plan (Suc (length [2::nat, 1])) ex_start =
       Returns ([(Some (DeleteStep 2 False), None), (Some (DeleteStep 1 False), None),
                 (None, None)],
         ex_start\<lparr>trace := [SrcNext SrcEnd], srcdone := True,
           deletes := {''urn:pulumi:t::k::p:m:A::a'', ''urn:pulumi:t::k::p:m:B::b''}, done_flag := True\<rparr>)"
    by (simp add: ex_start_def ex_heap_def NewState_def src_Next_def logCall_def insert_commute)
  then show ?thesis by (simp add: numeral_3_eq_3)
qed

lemma ex_run:
  "run ex_plan [CallNext, CallNext, CallNext] ex_start =
     Returns (ex_start\<lparr>trace := [SrcNext SrcEnd], srcdone := True,
           deletes := {''urn:pulumi:t::k::p:m:A::a'', ''urn:pulumi:t::k::p:m:B::b''}, done_flag := True\<rparr>)"
proof -
  have "run ex_plan (replicate 3 CallNext) ex_start =
     Returns (ex_start\<lparr>trace := [SrcNext SrcEnd], srcdone := True,
           deletes := {''urn:pulumi:t::k::p:m:A::a'', ''urn:pulumi:t::k::p:m:B::b''}, done_flag := True\<rparr>)"
    unfolding run_Nexts ex_Nexts by simp
  then show ?thesis by (simp add: numeral_3_eq_3)
qed

lemma ex_step_Apply_frame:
  "step_Apply_frame ex_plan"
  by (simp add: step_Apply_frame_def ex_plan_def)

text \<open>
  C10. Once the done flag is set, every later call of \<^verbatim>\<open>Next\<close> returns (nil, nil) and
  leaves the iterator as it is, so neither the source nor a queue is touched; a call of
  \<^verbatim>\<open>Next\<close> that sets the flag returns (nil, nil); and calls of \<^verbatim>\<open>Apply\<close> in between
  leave the flag, the source and the queues alone (for steps whose own \<^verbatim>\<open>Apply\<close> keeps to
  the states and the snapshot lists). And along every run from \<^verbatim>\<open>Start\<close> the source
  answers nil at most once, as the last answer it is ever asked for, and \<open>srcdone\<close> is set
  from then on.
\<close>

theorem Next_done_and_source_end:
  "(done_flag it \<longrightarrow> Nexts p n it = Returns (replicate n (None, None), it))
   \<and> (\<not> done_flag it \<and> Next p it = Returns (r, it') \<and> done_flag it' \<longrightarrow> r = (None, None))
   \<and> (step_Apply_frame p \<and> done_flag it \<longrightarrow>
        (\<exists>it1. run p acts it = Returns it1 \<and> done_flag it1 \<and> src it1 = src it
           \<and> stepqueue it1 = stepqueue it \<and> delqueue it1 = delqueue it
           \<and> sourced (trace it1) = sourced (trace it)))
   \<and> (step_Apply_frame p \<and> Start p = Inr it0 \<and> run p acts it0 = Returns it2 \<longrightarrow>
        ends_once (sourced (trace it2))
        \<and> (SrcEnd \<in> set (sourced (trace it2)) \<longrightarrow> srcdone it2))"
proof (intro conjI impI)
  assume "done_flag it"
  then show "Nexts p n it = Returns (replicate n (None, None), it)"
    by (rule Nexts_done)
next
  assume "\<not> done_flag it \<and> Next p it = Returns (r, it') \<and> done_flag it'"
  then show "r = (None, None)"
    using Next_sets_done [of p it r it'] by blast
next
  assume "step_Apply_frame p \<and> done_flag it"
  then show "\<exists>it1. run p acts it = Returns it1 \<and> done_flag it1 \<and> src it1 = src it
           \<and> stepqueue it1 = stepqueue it \<and> delqueue it1 = delqueue it
           \<and> sourced (trace it1) = sourced (trace it)"
    using run_done [of p it acts] by blast
next
  assume a: "step_Apply_frame p \<and> Start p = Inr it0 \<and> run p acts it0 = Returns it2"
  then have "(move p)\<^sup>*\<^sup>* it0 it2" "source_inv it0"
    using run_moves [of p acts it0 it2] Start_source_inv [of p it0] by blast+
  then have i: "source_inv it2"
    using a moves_source_inv [of p it0 it2] by blast
  from i show "ends_once (sourced (trace it2))"
    by (simp add: source_inv_def)
  assume "SrcEnd \<in> set (sourced (trace it2))"
  then show "srcdone it2"
    using i by (simp add: source_inv_def)
qed

theorem Next_done_and_source_end_witness:
  "Nexts ex_plan 2 (ex_start\<lparr>trace := [SrcNext SrcEnd], srcdone := True,
       deletes := {''urn:pulumi:t::k::p:m:A::a'', ''urn:pulumi:t::k::p:m:B::b''},
       done_flag := True\<rparr>) =
     Returns ([(None, None), (None, None)],
       ex_start\<lparr>trace := [SrcNext SrcEnd], srcdone := True,
         deletes := {''urn:pulumi:t::k::p:m:A::a'', ''urn:pulumi:t::k::p:m:B::b''},
         done_flag := True\<rparr>)
   \<and> Next ex_plan (ex_start\<lparr>srcdone := True\<rparr>) =
       Returns ((None, None), ex_start\<lparr>srcdone := True, done_flag := True\<rparr>)
   \<and> run ex_plan [CallNext, CallApply ex_step False, CallNext]
         (ex_start\<lparr>srcdone := True, done_flag := True\<rparr>) =
       Returns (ex_start\<lparr>srcdone := True, done_flag := True,
         regs := [''urn:pulumi:t::k::p:m:A::a'' \<mapsto> ex_step],
         trace := [StepApply ex_step False]\<rparr>)
   \<and> run ex_plan [CallNext, CallNext, CallNext] ex_start =
       Returns (ex_start\<lparr>trace := [SrcNext SrcEnd], srcdone := True,
         deletes := {''urn:pulumi:t::k::p:m:A::a'', ''urn:pulumi:t::k::p:m:B::b''},
         done_flag := True\<rparr>)
   \<and> ends_once (sourced [SrcNext SrcEnd])"
proof -
  let ?X = "ex_start\<lparr>trace := [SrcNext SrcEnd], srcdone := True,
       deletes := {''urn:pulumi:t::k::p:m:A::a'', ''urn:pulumi:t::k::p:m:B::b''},
       done_flag := True\<rparr>"
  let ?acts = "[CallNext, CallApply ex_step False, CallNext]"
  have n: "Next ex_plan (ex_start\<lparr>srcdone := True\<rparr>) =
       Returns ((None, None), ex_start\<lparr>srcdone := True, done_flag := True\<rparr>)"
    by (intro Next_drain_end) (simp_all add: ex_start_def)
  have 1: "Nexts ex_plan 2 ?X = Returns ([(None, None), (None, None)], ?X)"
    using Next_done_and_source_end [of ?X ex_plan 2 "(None, None)" ?X "[]" ex_start ?X]
    by (simp add: numeral_2_eq_2)
  have 2: "\<exists>it1. run ex_plan ?acts (ex_start\<lparr>srcdone := True, done_flag := True\<rparr>) = Returns it1
         \<and> done_flag it1 \<and> src it1 = [] \<and> stepqueue it1 = [] \<and> delqueue it1 = []
         \<and> sourced (trace it1) = []"
    using Next_done_and_source_end [of "ex_start\<lparr>srcdone := True, done_flag := True\<rparr>" ex_plan 0
        "(None, None)" ex_start ?acts ex_start ex_start] ex_step_Apply_frame
    by (simp add: ex_start_def)
  have 3: "ends_once (sourced (trace ?X))"
    using Next_done_and_source_end [of "ex_start\<lparr>srcdone := True\<rparr>" ex_plan 0 "(None, None)"
        "ex_start\<lparr>srcdone := True, done_flag := True\<rparr>" "[CallNext, CallNext, CallNext]"
        ex_start ?X] ex_step_Apply_frame ex_Start ex_run n
    by simp
  have r: "run ex_plan ?acts (ex_start\<lparr>srcdone := True, done_flag := True\<rparr>) =
       Returns (ex_start\<lparr>srcdone := True, done_flag := True,
         regs := [''urn:pulumi:t::k::p:m:A::a'' \<mapsto> ex_step],
         trace := [StepApply ex_step False]\<rparr>)"
    using 2
    by (simp add: Next_done Apply_def Step_URN_def logCall_def ex_plan_def ex_start_def ex_step_def
        ex_heap_def NewState_def)
  show ?thesis
    using 1 3 n ex_run r by simp
qed

text \<open>
  C7. Along every run of \<^verbatim>\<open>Next\<close> and \<^verbatim>\<open>Apply\<close> calls from \<^verbatim>\<open>Start\<close> that leaves the
  iterator done, no URN is in two of \<open>creates\<close>, \<open>updates\<close> and \<open>sames\<close>, and every URN in
  \<open>replaces\<close> is in \<open>deletes\<close>. Taken for granted of the code that is not the iterator's:
  a step's own \<^verbatim>\<open>Apply\<close> keeps to the states and the snapshot lists, and the map of old
  states is made from the prior snapshot.
\<close>

theorem classification_partition:
  assumes "step_Apply_frame p" and "plan_wf p" and "Start p = Inr it0"
    and "run p acts it0 = Returns it" and "done_flag it"
  shows "creates it \<inter> updates it = {} \<and> creates it \<inter> sames it = {}
     \<and> updates it \<inter> sames it = {} \<and> replaces it \<subseteq> deletes it"
proof -
  have "(move p)\<^sup>*\<^sup>* it0 it"
    using assms(4) by (rule run_moves)
  moreover have "plan_inv p it0"
    using assms(3) by (rule Start_plan_inv)
  ultimately have i: "plan_inv p it"
    using moves_plan_inv [OF assms(1,2)] by blast
  then have "srcdone it" "delqueue it = []"
    using assms(5) by (simp_all add: plan_inv_def)
  then have "replaces it \<subseteq> deletes it"
    using i by (auto simp: plan_inv_def)
  then show ?thesis
    using i by (simp add: plan_inv_def)
qed

lemma ex_replacing_wf:
  "step_Apply_frame ex_replacing_run" "plan_wf ex_replacing_run"
  by (simp_all add: step_Apply_frame_def plan_wf_def prior_def ex_replacing_run_def
      ex_replacing_plan_def ex_plan_def ex_heap_def NewState_def)

lemma ex_replacing_Start:
  "Start ex_replacing_run = Inr (ex_start\<lparr>src := [SrcEvent (RegisterEv (ex_register ''a'' 2))]\<rparr>)"
  by (simp add: Start_def ex_replacing_run_def ex_replacing_plan_def ex_plan_def ex_start_def)

lemma ex_replacing_register:
  "makeRegisterResouceSteps ex_replacing_run (ex_register ''a'' 2)
     (ex_start\<lparr>trace := [SrcNext (SrcEvent (RegisterEv (ex_register ''a'' 2)))]\<rparr>) =
   Returns (Inr [CreateReplacementStep (ex_register ''a'' 2) 1 3 [''k''], ReplaceStep 1 3 [''k'']],
     ex_start\<lparr>urns := {''urn:pulumi:t::k::p:m:A::a''}, replaces := {''urn:pulumi:t::k::p:m:A::a''},
       heap := ex_heap(3 := NewState ''p:m:A'' ''urn:pulumi:t::k::p:m:A::a'' True False []
                 (Some [''k'' \<mapsto> PNumber 2]) None []),
       next_ref := 4,
       trace := [SrcNext (SrcEvent (RegisterEv (ex_register ''a'' 2))),
         ProviderCheck ''urn:pulumi:t::k::p:m:A::a'' (Some [''k'' \<mapsto> PNumber 1])
           (Some [''k'' \<mapsto> PNumber 2]),
         ProviderDiff ''urn:pulumi:t::k::p:m:A::a'' ''id1'' (Some [''k'' \<mapsto> PNumber 1])
           (Some [''k'' \<mapsto> PNumber 2]),
         ProviderCheck ''urn:pulumi:t::k::p:m:A::a'' None (Some [''k'' \<mapsto> PNumber 2])]\<rparr>)"
proof -
  let ?A = "''urn:pulumi:t::k::p:m:A::a''"
  let ?one = "Some [''k'' \<mapsto> PNumber 1]"
  let ?two = "Some [''k'' \<mapsto> PNumber 2]"
  let ?p = ex_replacing_run
  let ?e = "ex_register ''a'' 2"
  let ?it = "ex_start\<lparr>trace := [SrcNext (SrcEvent (RegisterEv (ex_register ''a'' 2)))]\<rparr>"
  have u: "goalURN ?p ?e = ?A"
    by (simp add: goalURN_def NewURN_def ex_plan_def ex_register_def ex_replacing_plan_def
        ex_replacing_run_def)
  have g: "goalProvider ?p (Goal ?e) = Inr (Some ex_replacing_provider)"
    by (simp add: goalProvider_def Provider_def ex_plan_def ex_register_def
        ex_replacing_plan_def ex_replacing_run_def)
  have o: "Olds ?p ?A = Some 1" "analyzers ?p = []"
    by (simp_all add: ex_plan_def ex_replacing_plan_def ex_replacing_run_def)
  have m: "makeRegisterResouceSteps ?p ?e ?it =
     decideSteps ?p ?e (goalURN ?p ?e) (next_ref ?it) (Some ex_replacing_provider) ?one
       (GProperties (Goal ?e)) ?two (validated ?p ?e (Some ex_replacing_provider) ?one ?two ?it)"
  proof (rule makeRegisterResouceSteps_validated)
    show "goalURN ?p ?e \<notin> urns ?it"
      by (simp add: ex_start_def)
    show "goalProvider ?p (Goal ?e) = Inr (Some ex_replacing_provider)"
      by (rule g)
    show "\<forall>old. Olds ?p (goalURN ?p ?e) = Some old \<longrightarrow> old \<noteq> next_ref ?it"
      by (simp add: u o ex_start_def)
    show "?one = (case Olds ?p (goalURN ?p ?e) of
                         Some old \<Rightarrow> Inputs (heap ?it old) | None \<Rightarrow> None)"
      by (simp add: u o ex_start_def ex_heap_def)
    show "checked (Some ex_replacing_provider) (goalURN ?p ?e) ?one (GProperties (Goal ?e))
        = Inr (?two, [])"
      by (simp add: checked_def ex_replacing_provider_def ex_register_def)
    show "\<forall>a \<in> set (analyzers ?p). \<exists>an. host_Analyzer ?p a = Inr (Some an)
               \<and> Analyze an (GType (Goal ?e)) ?two = Inr []"
      by (simp add: o)
  qed
  show ?thesis
    unfolding m u
    by (simp add: decideSteps_def validated_def goalURN_def NewURN_def issueCheckErrors_def
        logCall_def Let_def
        ex_replacing_provider_def ex_start_def ex_heap_def ex_register_def NewState_def
        ex_plan_def ex_replacing_plan_def ex_replacing_run_def)
qed


lemma ex_replacing_Nexts:
  "\<exists>it. Nexts ex_replacing_run 5 (ex_start\<lparr>src := [SrcEvent (RegisterEv (ex_register ''a'' 2))]\<rparr>) =
     Returns ([(Some (CreateReplacementStep (ex_register ''a'' 2) 1 3 [''k'']), None),
               (Some (ReplaceStep 1 3 [''k'']), None),
               (Some (DeleteStep 2 False), None), (Some (DeleteStep 1 True), None),
               (None, None)], it)
     \<and> run ex_replacing_run (replicate 5 CallNext)
           (ex_start\<lparr>src := [SrcEvent (RegisterEv (ex_register ''a'' 2))]\<rparr>) = Returns it
     \<and> done_flag it \<and> replaces it = {''urn:pulumi:t::k::p:m:A::a''}
     \<and> deletes it = {''urn:pulumi:t::k::p:m:A::a'', ''urn:pulumi:t::k::p:m:B::b''}
     \<and> creates it = {} \<and> updates it = {} \<and> sames it = {}"
proof -
  let ?p = ex_replacing_run
  let ?e = "ex_register ''a'' 2"
  let ?ev = "SrcEvent (RegisterEv ?e)"
  let ?it0 = "ex_start\<lparr>src := [?ev]\<rparr>"
  let ?CR = "CreateReplacementStep ?e 1 3 [''k'']"
  let ?R = "ReplaceStep 1 3 [''k'']"
  let ?S = "ex_start\<lparr>urns := {''urn:pulumi:t::k::p:m:A::a''}, replaces := {''urn:pulumi:t::k::p:m:A::a''},
       heap := ex_heap(3 := NewState ''p:m:A'' ''urn:pulumi:t::k::p:m:A::a'' True False []
                 (Some [''k'' \<mapsto> PNumber 2]) None []),
       next_ref := 4,
       trace := [SrcNext (SrcEvent (RegisterEv (ex_register ''a'' 2))),
         ProviderCheck ''urn:pulumi:t::k::p:m:A::a'' (Some [''k'' \<mapsto> PNumber 1])
           (Some [''k'' \<mapsto> PNumber 2]),
         ProviderDiff ''urn:pulumi:t::k::p:m:A::a'' ''id1'' (Some [''k'' \<mapsto> PNumber 1])
           (Some [''k'' \<mapsto> PNumber 2]),
         ProviderCheck ''urn:pulumi:t::k::p:m:A::a'' None (Some [''k'' \<mapsto> PNumber 2])]\<rparr>"
  have f: "\<not> done_flag ex_start" "\<not> srcdone ex_start" "stepqueue ex_start = []"
    "src ex_start = []" "delqueue ex_start = []" "creates ex_start = {}" "updates ex_start = {}"
    "sames ex_start = {}" "deletes ex_start = {}"
    by (simp_all add: ex_start_def)
  have s1: "src_Next ?it0 = (?ev, ex_start\<lparr>trace := [SrcNext ?ev]\<rparr>)"
    by (simp add: src_Next_def logCall_def ex_start_def)
  have n1: "Next ?p ?it0 = Returns ((Some ?CR, None), ?S\<lparr>stepqueue := [?R]\<rparr>)"
    by (subst Next.simps) (simp add: s1 f ex_replacing_register)
  have n2: "Next ?p (?S\<lparr>stepqueue := [?R]\<rparr>) = Returns ((Some ?R, None), ?S\<lparr>stepqueue := []\<rparr>)"
    by (subst Next.simps) (simp add: f)
  let ?T = "?S\<lparr>stepqueue := []\<rparr>"
  have c: "computeDeletes ?p ?T = Returns [2, 1]"
    by (simp add: computeDeletes_eq prior_def toDelete_def f ex_replacing_run_def
        ex_replacing_plan_def ex_plan_def ex_heap_def NewState_def)
  have s3: "src_Next ?T = (SrcEnd, ?T\<lparr>trace := trace ?T @ [SrcNext SrcEnd]\<rparr>)"
    by (simp add: src_Next_def logCall_def f)
  let ?itd = "(snd (src_Next ?T))\<lparr>srcdone := True, delqueue := [2, 1]\<rparr>"
  have n3: "Next ?p ?T = Next ?p ?itd"
    using c by (intro Next_source_end) (simp_all add: f s3)
  have d: "Nexts ?p (Suc (length [2::nat, 1])) ?itd =
     Returns (map (\<lambda>d. (Some (DeleteStep d (URN (heap ?itd d) \<in> replaces ?itd)), None)) [2, 1]
                @ [(None, None)],
              ?itd\<lparr>delqueue := [],
                 deletes := deletes ?itd \<union> (\<lambda>d. URN (heap ?itd d)) ` set [2, 1],
                 done_flag := True\<rparr>)"
    by (intro Nexts_drain) (simp_all add: f s3)
  have "Nexts ?p (Suc (length [2::nat, 1])) ?T = Nexts ?p (Suc (length [2::nat, 1])) ?itd"
    using n3 by (simp only: Nexts.simps)
  then have 3: "Nexts ?p 3 ?T =
     Returns (map (\<lambda>d. (Some (DeleteStep d (URN (heap ?itd d) \<in> replaces ?itd)), None)) [2, 1]
                @ [(None, None)],
              ?itd\<lparr>delqueue := [],
                 deletes := deletes ?itd \<union> (\<lambda>d. URN (heap ?itd d)) ` set [2, 1],
                 done_flag := True\<rparr>)"
    using d by (simp add: numeral_3_eq_3)
  have 5: "Nexts ?p (Suc (Suc 3)) ?it0 =
     Returns ((Some ?CR, None) # (Some ?R, None)
        # (map (\<lambda>d. (Some (DeleteStep d (URN (heap ?itd d) \<in> replaces ?itd)), None)) [2, 1]
                @ [(None, None)]),
              ?itd\<lparr>delqueue := [],
                 deletes := deletes ?itd \<union> (\<lambda>d. URN (heap ?itd d)) ` set [2, 1],
                 done_flag := True\<rparr>)"
    by (simp only: Nexts.simps(2) n1 n2 3 exec.case prod.case)
  have e5: "(5::nat) = Suc (Suc 3)"
    by simp
  let ?F = "?itd\<lparr>delqueue := [],
                 deletes := deletes ?itd \<union> (\<lambda>d. URN (heap ?itd d)) ` set [2, 1],
                 done_flag := True\<rparr>"
  have u: "URN (ex_heap 1) = ''urn:pulumi:t::k::p:m:A::a''"
    "URN (ex_heap 2) = ''urn:pulumi:t::k::p:m:B::b''"
    by (simp_all add: ex_heap_def NewState_def)
  have l: "map (\<lambda>d. (Some (DeleteStep d (URN (heap ?itd d) \<in> replaces ?itd)), None)) [2, 1]
      = [(Some (DeleteStep 2 False), None), (Some (DeleteStep 1 True), None)]"
    using u by (simp add: s3)
  have p: "done_flag ?F" "replaces ?F = {''urn:pulumi:t::k::p:m:A::a''}"
    "deletes ?F = {''urn:pulumi:t::k::p:m:A::a'', ''urn:pulumi:t::k::p:m:B::b''}"
    "creates ?F = {}" "updates ?F = {}" "sames ?F = {}"
    using u by (simp_all add: s3 f insert_commute)
  have "Nexts ?p 5 ?it0 =
     Returns ([(Some ?CR, None), (Some ?R, None),
               (Some (DeleteStep 2 False), None), (Some (DeleteStep 1 True), None),
               (None, None)], ?F)"
    unfolding e5 5 l by simp
  moreover from this have "run ?p (replicate 5 CallNext) ?it0 = Returns ?F"
    by (simp only: run_Nexts exec.case prod.case)
  ultimately show ?thesis
    using p by blast
qed

theorem classification_partition_witness:
  "step_Apply_frame ex_replacing_run \<and> plan_wf ex_replacing_run
   \<and> Start ex_replacing_run =
       Inr (ex_start\<lparr>src := [SrcEvent (RegisterEv (ex_register ''a'' 2))]\<rparr>)
   \<and> (case run ex_replacing_run (replicate 5 CallNext)
              (ex_start\<lparr>src := [SrcEvent (RegisterEv (ex_register ''a'' 2))]\<rparr>) of
         Returns it \<Rightarrow>
           done_flag it \<and> replaces it = {''urn:pulumi:t::k::p:m:A::a''}
           \<and> deletes it = {''urn:pulumi:t::k::p:m:A::a'', ''urn:pulumi:t::k::p:m:B::b''}
           \<and> creates it \<inter> updates it = {} \<and> creates it \<inter> sames it = {}
           \<and> updates it \<inter> sames it = {} \<and> replaces it \<subseteq> deletes it
       | Panics m \<Rightarrow> False)"
proof -
  let ?it0 = "ex_start\<lparr>src := [SrcEvent (RegisterEv (ex_register ''a'' 2))]\<rparr>"
  let ?A = "''urn:pulumi:t::k::p:m:A::a''"
  let ?B = "''urn:pulumi:t::k::p:m:B::b''"
  from ex_replacing_Nexts obtain it where h:
    "Nexts ex_replacing_run 5 ?it0 =
     Returns ([(Some (CreateReplacementStep (ex_register ''a'' 2) 1 3 [''k'']), None),
               (Some (ReplaceStep 1 3 [''k'']), None),
               (Some (DeleteStep 2 False), None), (Some (DeleteStep 1 True), None),
               (None, None)], it)
     \<and> run ex_replacing_run (replicate 5 CallNext) ?it0 = Returns it
     \<and> done_flag it \<and> replaces it = {?A} \<and> deletes it = {?A, ?B}
     \<and> creates it = {} \<and> updates it = {} \<and> sames it = {}" ..
  from h have e: "run ex_replacing_run (replicate 5 CallNext) ?it0 = Returns it"
    by (elim conjE)
  from h have d: "done_flag it"
    by (elim conjE)
  from h have r: "replaces it = {?A}"
    by (elim conjE)
  from h have l: "deletes it = {?A, ?B}"
    by (elim conjE)
  have c: "creates it \<inter> updates it = {} \<and> creates it \<inter> sames it = {}
     \<and> updates it \<inter> sames it = {} \<and> replaces it \<subseteq> deletes it"
    using classification_partition [OF ex_replacing_wf ex_replacing_Start e d] .
  have g: "done_flag it \<and> replaces it = {?A} \<and> deletes it = {?A, ?B}
           \<and> creates it \<inter> updates it = {} \<and> creates it \<inter> sames it = {}
           \<and> updates it \<inter> sames it = {} \<and> replaces it \<subseteq> deletes it"
    using d r l c by (intro conjI) (elim conjE, assumption)+
  have "(case run ex_replacing_run (replicate 5 CallNext) ?it0 of
         Returns it \<Rightarrow>
           done_flag it \<and> replaces it = {?A} \<and> deletes it = {?A, ?B}
           \<and> creates it \<inter> updates it = {} \<and> creates it \<inter> sames it = {}
           \<and> updates it \<inter> sames it = {} \<and> replaces it \<subseteq> deletes it
       | Panics m \<Rightarrow> False)"
    by (subst e) (simp only: exec.case, rule g)
  then show ?thesis
    using ex_replacing_wf ex_replacing_Start by (intro conjI)
qed

end
